theory Spec2Isabelle
  imports Main "HOL-Library.Word"
begin

unbundle bit_operations_syntax

section \<open>Data model of \<open>editor/signv2/apk.go\<close>\<close>

type_synonym byte = "8 word"
type_synonym uint16 = "16 word"
type_synonym uint32 = "32 word"
type_synonym uint64 = "64 word"

text \<open>
  The outcomes of the Go functions. The first four are the error values the locator
  returns (\<open>errors.New "input is too small to be a zip"\<close>, \<open>"input is not a zip"\<close>,
  \<open>"CD not adjacent to EOCD"\<close>, and the error handed back by \<open>zip.NewReader\<close>);
  \<open>NotV2Signed\<close> is \<open>"v2 verification attempted on non-v2-signed file"\<close>;
  \<open>V2ParseFailure\<close> and \<open>V2VerifyFailure\<close> are the errors of the two collaborators
  \<open>ParseV2Block\<close> and \<open>V2Block.Verify\<close>. \<open>RuntimePanic\<close> is a Go run-time panic
  (slice bounds out of range, index out of range, makeslice: len out of range).
\<close>

datatype error =
    TooSmall
  | NotAZipContainer
  | CDNotAdjacentToEOCD
  | EntryReadFailure
  | NotV2Signed
  | V2ParseFailure
  | V2VerifyFailure
  | RuntimePanic

record ApkSign =
  IsAPK :: bool
  IsV2Signed :: bool
  raw :: "byte list"
  size_f :: int
  eocdOffset :: uint64
  cdOffset :: uint64
  asv2Offset :: uint64
  rawASv2 :: "byte list"

section \<open>Go primitives\<close>

text \<open>
  \<open>binary.LittleEndian.UintN\<close> on a slice that holds the N/8 bytes:
  \<open>b[0] | b[1] << 8 | ...\<close>.
\<close>

definition le_word :: "byte list \<Rightarrow> 'a::len word" where
  "le_word bs = foldr (\<lambda>b w. ucast b OR push_bit 8 w) bs 0"

definition Uint16 :: "byte list \<Rightarrow> uint16" where
  "Uint16 b = le_word (take 2 b)"

definition Uint32 :: "byte list \<Rightarrow> uint32" where
  "Uint32 b = le_word (take 4 b)"

definition Uint64 :: "byte list \<Rightarrow> uint64" where
  "Uint64 b = le_word (take 8 b)"

text \<open>The four bytes \<open>binary.LittleEndian.PutUint32\<close> stores.\<close>

definition PutUint32 :: "uint32 \<Rightarrow> byte list" where
  "PutUint32 v = [ucast v, ucast (drop_bit 8 v), ucast (drop_bit 16 v), ucast (drop_bit 24 v)]"

text \<open>
  A slice expression \<open>xs[lo:hi]\<close> with run-time indices: it panics unless
  \<open>0 \<le> lo \<le> hi \<le> cap xs\<close>. Every slice that is sliced here was made by \<open>make\<close>
  with its capacity equal to its length. \<open>xs[lo:]\<close> is \<open>xs[lo:len xs]\<close>.
\<close>

definition go_slice :: "'a list \<Rightarrow> int \<Rightarrow> int \<Rightarrow> error + 'a list" where
  "go_slice xs lo hi =
     (if 0 \<le> lo \<and> lo \<le> hi \<and> hi \<le> int (length xs)
      then Inr (take (nat hi - nat lo) (drop (nat lo) xs))
      else Inl RuntimePanic)"

definition go_slice_from :: "'a list \<Rightarrow> int \<Rightarrow> error + 'a list" where
  "go_slice_from xs lo = go_slice xs lo (int (length xs))"

text \<open>
  \<open>make([]byte, n)\<close>: the run time panics when \<open>n\<close> is negative or larger than the
  largest allocation, \<open>maxAlloc\<close> (\<open>1 << 48\<close> on 64-bit Linux); otherwise the slice
  holds \<open>n\<close> zero bytes.
\<close>

definition maxAlloc :: int where
  "maxAlloc = 2 ^ 48"

definition make_bytes :: "int \<Rightarrow> error + byte list" where
  "make_bytes n =
     (if 0 \<le> n \<and> n \<le> maxAlloc then Inr (replicate (nat n) 0) else Inl RuntimePanic)"

text \<open>
  \<open>copy(dst, src)\<close> overwrites the first \<open>min (len dst) (len src)\<close> elements of
  \<open>dst\<close>; the result is the new content of \<open>dst\<close>.
\<close>

definition go_copy :: "'a list \<Rightarrow> 'a list \<Rightarrow> 'a list" where
  "go_copy dst src =
     take (min (length dst) (length src)) src @ drop (min (length dst) (length src)) dst"

text \<open>
  \<open>copy(ret[lo:hi], src)\<close> on the array behind \<open>ret\<close>: the slice expression may
  panic, the copy writes into the elements \<open>lo..<hi\<close> of \<open>ret\<close>.
\<close>

definition copy_into :: "'a list \<Rightarrow> int \<Rightarrow> int \<Rightarrow> 'a list \<Rightarrow> error + 'a list" where
  "copy_into ret lo hi src =
     (case go_slice ret lo hi of
        Inl e \<Rightarrow> Inl e
      | Inr dst \<Rightarrow> Inr (take (nat lo) ret @ go_copy dst src @ drop (nat hi) ret))"

section \<open>The locator: \<open>NewApkSign\<close>\<close>

text \<open>
  \<open>zip.NewReader\<close> of the standard library is not part of the repository: it is a
  parameter that yields the member names of the archive, or \<open>None\<close> for its error.
\<close>

type_synonym reader = "byte list \<Rightarrow> string list option"

definition sig_magic :: "byte list" where
  "sig_magic = [0x41, 0x50, 0x4b, 0x20, 0x53, 0x69, 0x67, 0x20,
                0x42, 0x6c, 0x6f, 0x63, 0x6b, 0x20, 0x34, 0x32]"

text \<open>
  The loop over \<open>r.File\<close>: the three names that make an archive an APK. The source
  also computes \<open>hasSF\<close> and \<open>hasRSA\<close> there and never reads them.
\<close>

fun name_flags :: "string list \<Rightarrow> bool \<times> bool \<times> bool \<Rightarrow> bool \<times> bool \<times> bool" where
  "name_flags [] flags = flags"
| "name_flags (f # fs) (hasClassesDex, hasAndroidManifestXML, hasResourcesARSC) =
     name_flags fs
       (if f = ''classes.dex'' then (True, hasAndroidManifestXML, hasResourcesARSC)
        else if f = ''AndroidManifest.xml'' then (hasClassesDex, True, hasResourcesARSC)
        else if f = ''resources.arsc'' then (hasClassesDex, hasAndroidManifestXML, True)
        else (hasClassesDex, hasAndroidManifestXML, hasResourcesARSC))"

definition is_apk :: "string list \<Rightarrow> bool" where
  "is_apk names = (case name_flags names (False, False, False) of (d, m, r) \<Rightarrow> d \<and> m \<and> r)"

text \<open>
  Lines 122 to 148: the search for the signing block in front of the Central
  Directory, on the descriptor \<open>z\<close> whose \<open>cdOffset\<close> is set. \<open>start\<close> is an
  \<open>int64\<close>, the offsets are \<open>uint64\<close>: \<open>sint\<close> is the conversion \<open>int64(...)\<close>, and
  \<open>start + 8\<close> is computed in 64 bits. \<open>postSize\<close> is \<open>Uint64 b64\<close>, \<open>preSize\<close> is
  \<open>Uint64 b64'\<close>; \<open>copy_asv2\<close> is the body of the \<open>if preSize == postSize\<close>.
\<close>

definition copy_asv2 :: "ApkSign \<Rightarrow> uint64 \<Rightarrow> uint64 \<Rightarrow> error + ApkSign" where
  "copy_asv2 z preSize postSize =
     (case make_bytes (uint (preSize - 24)) of
        Inl e \<Rightarrow> Inl e
      | Inr dst \<Rightarrow>
          (case go_slice_from (raw z) (sint (cdOffset z - postSize - 8 + 8)) of
             Inl e \<Rightarrow> Inl e
           | Inr src \<Rightarrow>
               Inr (z\<lparr>asv2Offset := cdOffset z - postSize - 8, rawASv2 := go_copy dst src\<rparr>)))"

definition find_asv2 :: "ApkSign \<Rightarrow> error + ApkSign" where
  "find_asv2 z =
     (case go_slice (raw z) (sint (cdOffset z) - 16) (uint (cdOffset z)) of
        Inl e \<Rightarrow> Inl e
      | Inr magic \<Rightarrow>
          if magic \<noteq> sig_magic then Inr z
          else
            (case go_slice (raw z) (sint (cdOffset z - 16 - 8)) (sint (cdOffset z - 16 - 8 + 8)) of
               Inl e \<Rightarrow> Inl e
             | Inr b64 \<Rightarrow>
                 (case go_slice (raw z) (sint (cdOffset z - Uint64 b64 - 8))
                                        (sint (cdOffset z - Uint64 b64 - 8 + 8)) of
                    Inl e \<Rightarrow> Inl e
                  | Inr b64' \<Rightarrow>
                      (case (if Uint64 b64' = Uint64 b64
                             then copy_asv2 z (Uint64 b64') (Uint64 b64) else Inr z) of
                         Inl e \<Rightarrow> Inl e
                       | Inr z' \<Rightarrow> Inr (z'\<lparr>IsV2Signed := 0 < asv2Offset z'\<rparr>)))))"

text \<open>
  Lines 94 to 148: what the locator does once a window has passed every check, with
  the offset of the Central Directory and of the window.
\<close>

definition accept :: "reader \<Rightarrow> byte list \<Rightarrow> uint64 \<Rightarrow> uint64 \<Rightarrow> error + ApkSign" where
  "accept rd buf cd eocd =
     (case rd buf of
        None \<Rightarrow> Inl EntryReadFailure
      | Some names \<Rightarrow>
          find_asv2 \<lparr>IsAPK = is_apk names, IsV2Signed = False, raw = buf,
                     size_f = int (length buf), eocdOffset = eocd, cdOffset = cd,
                     asv2Offset = 0, rawASv2 = []\<rparr>)"

text \<open>
  One turn of the loop of lines 59 to 150, for the comment length \<open>i\<close>: it either
  goes on to the next \<open>i\<close> (\<open>continue\<close>, or the end of the body) or leaves the
  function.
\<close>

datatype step = Continue | Return "error + ApkSign"

definition probe :: "reader \<Rightarrow> byte list \<Rightarrow> nat \<Rightarrow> step" where
  "probe rd buf i =
     (case go_slice buf (int (length buf) - 22 - int i) (int (length buf) - 22 - int i + 22) of
        Inl e \<Rightarrow> Return (Inl e)
      | Inr b \<Rightarrow>
          if Uint32 (take 4 b) = 0x06054b50 then
            if (word_of_nat i :: uint16) \<noteq> Uint16 (take 2 (drop 20 b)) then Continue
            else
              (case go_slice_from buf (uint (Uint32 (take 4 (drop 16 b)))) of
                 Inl e \<Rightarrow> Return (Inl e)
               | Inr b2 \<Rightarrow>
                   if length b2 < 4 then Return (Inl RuntimePanic)
                   else if Uint32 b2 \<noteq> 0x02014b50 then Continue
                   else if ucast (Uint32 (take 4 (drop 16 b))) + ucast (Uint32 (take 4 (drop 12 b)))
                             \<noteq> (word_of_nat (length buf) - 22 - word_of_nat i :: uint64)
                   then Return (Inl CDNotAdjacentToEOCD)
                   else Return (accept rd buf (ucast (Uint32 (take 4 (drop 16 b))))
                                  (word_of_nat (length buf) - 22 - word_of_nat i)))
          else Continue)"

function scan :: "reader \<Rightarrow> byte list \<Rightarrow> nat \<Rightarrow> error + ApkSign" where
  "scan rd buf i =
     (if i < 65535
      then (case probe rd buf i of Continue \<Rightarrow> scan rd buf (i + 1) | Return r \<Rightarrow> r)
      else Inl NotAZipContainer)"
  by pat_completeness auto
termination
  by (relation "measure (\<lambda>(rd, buf, i). 65535 - i)") auto

declare scan.simps [simp del]

definition NewApkSign :: "reader \<Rightarrow> byte list \<Rightarrow> error + ApkSign" where
  "NewApkSign rd buf =
     (if int (length buf) < 22 then Inl TooSmall else scan rd buf 0)"

section \<open>\<open>VerifyV2\<close>\<close>

text \<open>
  \<open>ParseV2Block\<close> and \<open>V2Block.Verify\<close> live in another file of the package: they are
  parameters. \<open>parse\<close> yields the parsed block or \<open>None\<close> for its error; \<open>verify\<close>
  gets the block and the pointer to the descriptor, and yields whether it returned
  an error together with the descriptor it leaves behind. The result of \<open>VerifyV2\<close> is
  its error (\<open>None\<close> for \<open>nil\<close>) and the descriptor after the call.
\<close>

definition VerifyV2 ::
  "(byte list \<Rightarrow> 'v option) \<Rightarrow> ('v \<Rightarrow> ApkSign \<Rightarrow> bool \<times> ApkSign) \<Rightarrow> ApkSign
     \<Rightarrow> error option \<times> ApkSign" where
  "VerifyV2 parse verify apkSign =
     (if \<not> IsV2Signed apkSign then (Some NotV2Signed, apkSign)
      else
        (case parse (rawASv2 apkSign) of
           None \<Rightarrow> (Some V2ParseFailure, apkSign)
         | Some v2 \<Rightarrow>
             (case verify v2 apkSign of
                (failed, apkSign') \<Rightarrow>
                  (if failed then Some V2VerifyFailure else None, apkSign'))))"

section \<open>The injector: \<open>InjectBeforeCD\<close>\<close>

text \<open>
  The offsets are \<open>uint64\<close> and \<open>len data\<close> is converted with \<open>uint64(...)\<close>: their
  sums and differences wrap around. \<open>newSize\<close> is an \<open>int64\<close> made of the lengths of
  two slices and of \<open>int64(cdOffset - asv2Offset)\<close>; it is written with unbounded
  integers, and \<open>make\<close> refuses what lies outside of \<open>0 .. maxAlloc\<close>.
\<close>

definition endOfFilesSection :: "ApkSign \<Rightarrow> uint64" where
  "endOfFilesSection z = (if 0 < asv2Offset z then asv2Offset z else cdOffset z)"

definition newSize :: "ApkSign \<Rightarrow> byte list \<Rightarrow> int" where
  "newSize z data =
     (if 0 < asv2Offset z
      then int (length (raw z)) - sint (cdOffset z - asv2Offset z)
      else int (length (raw z))) + int (length data)"

definition patch_eocd :: "ApkSign \<Rightarrow> byte list \<Rightarrow> error + byte list" where
  "patch_eocd z data =
     (case make_bytes (size_f z - sint (eocdOffset z)) of
        Inl e \<Rightarrow> Inl e
      | Inr blank \<Rightarrow>
          (case go_slice_from (raw z) (uint (eocdOffset z)) of
             Inl e \<Rightarrow> Inl e
           | Inr tail \<Rightarrow>
               (case go_slice_from (go_copy blank tail) 16 of
                  Inl e \<Rightarrow> Inl e
                | Inr field \<Rightarrow>
                    if length field < 4 then Inl RuntimePanic
                    else Inr (take 16 (go_copy blank tail)
                              @ PutUint32 (ucast (endOfFilesSection z + word_of_nat (length data)))
                              @ drop 20 (go_copy blank tail)))))"

definition InjectBeforeCD :: "ApkSign \<Rightarrow> byte list \<Rightarrow> error + byte list" where
  "InjectBeforeCD z data =
     (let e = endOfFilesSection z; n = (word_of_nat (length data) :: uint64) in
      case patch_eocd z data of
        Inl x \<Rightarrow> Inl x
      | Inr newEocd \<Rightarrow>
      (case make_bytes (newSize z data) of
        Inl x \<Rightarrow> Inl x
      | Inr ret0 \<Rightarrow>
      (case go_slice (raw z) 0 (uint e) of
        Inl x \<Rightarrow> Inl x
      | Inr files \<Rightarrow>
      (case copy_into ret0 0 (uint e) files of
        Inl x \<Rightarrow> Inl x
      | Inr ret1 \<Rightarrow>
      (case copy_into ret1 (uint e) (uint (e + n)) data of
        Inl x \<Rightarrow> Inl x
      | Inr ret2 \<Rightarrow>
      (case go_slice (raw z) (uint (cdOffset z)) (uint (eocdOffset z)) of
        Inl x \<Rightarrow> Inl x
      | Inr cd \<Rightarrow>
      (case copy_into ret2 (uint (e + n)) (int (length ret2)) cd of
        Inl x \<Rightarrow> Inl x
      | Inr ret3 \<Rightarrow>
          copy_into ret3 (uint (e + n + (eocdOffset z - cdOffset z))) (int (length ret3))
            newEocd)))))))"

text \<open>\<open>Bytes\<close>: a copy of the bytes the descriptor holds.\<close>

definition Bytes :: "ApkSign \<Rightarrow> byte list" where
  "Bytes z = raw z"

section \<open>Notions the properties are stated with\<close>

text \<open>
  The 22 bytes the loop reads for the comment length \<open>i\<close>, and the fields of an End Of
  Central Directory record read from them: the declared offset and length of the
  Central Directory.
\<close>

definition window :: "byte list \<Rightarrow> nat \<Rightarrow> byte list" where
  "window buf i = take 22 (drop (length buf - 22 - i) buf)"

definition declared_cd :: "byte list \<Rightarrow> nat \<Rightarrow> uint32" where
  "declared_cd buf i = Uint32 (drop 16 (window buf i))"

definition declared_cd_len :: "byte list \<Rightarrow> nat \<Rightarrow> uint32" where
  "declared_cd_len buf i = Uint32 (drop 12 (window buf i))"

text \<open>
  A window is corroborated when it lies in the buffer, starts with the EOCD magic,
  declares the comment length \<open>i\<close>, and the four bytes at the offset it declares lie in
  the buffer and are the magic of the Central Directory.
\<close>

definition corroborated :: "byte list \<Rightarrow> nat \<Rightarrow> bool" where
  "corroborated buf i \<longleftrightarrow>
     i + 22 \<le> length buf \<and>
     Uint32 (window buf i) = 0x06054b50 \<and>
     Uint16 (drop 20 (window buf i)) = word_of_nat i \<and>
     unat (declared_cd buf i) + 4 \<le> length buf \<and>
     Uint32 (drop (unat (declared_cd buf i)) buf) = 0x02014b50"

text \<open>
  A window is passed over when it lies in the buffer and has no EOCD magic, or declares
  another comment length, or declares an offset at which four bytes of the buffer are
  not the magic of the Central Directory.
\<close>

definition passed_over :: "byte list \<Rightarrow> nat \<Rightarrow> bool" where
  "passed_over buf i \<longleftrightarrow>
     i + 22 \<le> length buf \<and>
     (Uint32 (window buf i) \<noteq> 0x06054b50 \<or>
      Uint16 (drop 20 (window buf i)) \<noteq> word_of_nat i \<or>
      (unat (declared_cd buf i) + 4 \<le> length buf \<and>
       Uint32 (drop (unat (declared_cd buf i)) buf) \<noteq> 0x02014b50))"

text \<open>
  The two size fields of a signing block that ends at the offset \<open>cd\<close>: the one in front
  of the magic, and the one at the start of the block that the first one points to.
\<close>

definition postSize :: "byte list \<Rightarrow> uint64 \<Rightarrow> uint64" where
  "postSize buf cd = Uint64 (drop (unat cd - 24) buf)"

definition preSize :: "byte list \<Rightarrow> uint64 \<Rightarrow> uint64" where
  "preSize buf cd = Uint64 (drop (unat (cd - postSize buf cd - 8)) buf)"

definition magic_before :: "byte list \<Rightarrow> uint64 \<Rightarrow> bool" where
  "magic_before buf cd \<longleftrightarrow> take 16 (drop (unat cd - 16) buf) = sig_magic"

text \<open>The size a descriptor's signing block declares in its leading size field.\<close>

definition declared_block_size :: "ApkSign \<Rightarrow> uint64" where
  "declared_block_size z = Uint64 (drop (unat (asv2Offset z)) (raw z))"

text \<open>
  A descriptor has valid offsets when it records the length of its bytes, the signing
  block (if any) does not start behind the Central Directory, the Central Directory
  does not start behind the EOCD record, and the 22 bytes of that record lie in the
  bytes. The bytes are a Go slice: no longer than the largest allocation.
\<close>

definition valid_offsets :: "ApkSign \<Rightarrow> bool" where
  "valid_offsets z \<longleftrightarrow>
     size_f z = int (length (raw z)) \<and>
     int (length (raw z)) \<le> maxAlloc \<and>
     asv2Offset z \<le> cdOffset z \<and>
     cdOffset z \<le> eocdOffset z \<and>
     unat (eocdOffset z) + 22 \<le> length (raw z)"


text \<open>Where the size field in front of the magic says the signing block starts.\<close>

definition asv2_start :: "ApkSign \<Rightarrow> uint64" where
  "asv2_start z = cdOffset z - postSize (raw z) (cdOffset z) - 8"

text \<open>The descriptor the locator has built when it starts to look for the signing block.\<close>

definition located :: "bool \<Rightarrow> byte list \<Rightarrow> nat \<Rightarrow> ApkSign" where
  "located apk buf i =
     \<lparr>IsAPK = apk, IsV2Signed = False, raw = buf, size_f = int (length buf),
      eocdOffset = word_of_nat (length buf) - 22 - word_of_nat i,
      cdOffset = ucast (declared_cd buf i), asv2Offset = 0, rawASv2 = []\<rparr>"

text \<open>
  The buffer the injector is to return: the bytes in front of the insertion point, the
  payload, the Central Directory, and the EOCD block with a new offset field.
\<close>

definition spliced :: "ApkSign \<Rightarrow> byte list \<Rightarrow> byte list" where
  "spliced z data =
     take (unat (endOfFilesSection z)) (raw z) @ data @
     take (unat (eocdOffset z) - unat (cdOffset z)) (drop (unat (cdOffset z)) (raw z)) @
     take 16 (drop (unat (eocdOffset z)) (raw z)) @
     PutUint32 (word_of_nat (unat (endOfFilesSection z) + length data)) @
     drop (unat (eocdOffset z) + 20) (raw z)"

section \<open>Example archives\<close>

text \<open>
  The pieces the examples are made of: 16 bytes that stand for the file entries, a
  Central Directory of one header of 46 bytes, and the smallest signing block (size 24,
  no content).
\<close>

definition filler16 :: "byte list" where
  "filler16 = [0, 0, 0, 0, 0, 0, 0, 0, 0, 0, 0, 0, 0, 0, 0, 0]"

definition cd_entry :: "byte list" where
  "cd_entry = [0x50, 0x4b, 0x01, 0x02, 0, 0, 0, 0, 0, 0, 0, 0, 0, 0, 0, 0, 0, 0, 0, 0, 0, 0, 0,
               0, 0, 0, 0, 0, 0, 0, 0, 0, 0, 0, 0, 0, 0, 0, 0, 0, 0, 0, 0, 0, 0, 0]"

definition empty_block :: "byte list" where
  "empty_block = [0x18, 0, 0, 0, 0, 0, 0, 0, 0x18, 0, 0, 0, 0, 0, 0, 0,
                  0x41, 0x50, 0x4b, 0x20, 0x53, 0x69, 0x67, 0x20,
                  0x42, 0x6c, 0x6f, 0x63, 0x6b, 0x20, 0x34, 0x32]"

text \<open>
  An unsigned archive of 84 bytes: the Central Directory at 16, the EOCD record at 62
  (length of the directory 46, offset 16, no comment).
\<close>

definition plain_zip :: "byte list" where
  "plain_zip = filler16 @ cd_entry @
     [0x50, 0x4b, 0x05, 0x06, 0, 0, 0, 0, 1, 0, 1, 0, 0x2e, 0, 0, 0, 0x10, 0, 0, 0, 0, 0]"


definition spoofed_far_zip :: "byte list" where
  "spoofed_far_zip = filler16 @ cd_entry @
     [0x50, 0x4b, 0x05, 0x06, 0, 0, 0, 0, 1, 0, 1, 0, 0x2e, 0, 0, 0, 0x10, 0, 0, 0, 0x16, 0] @
     [0x50, 0x4b, 0x05, 0x06, 0, 0, 0, 0, 0, 0, 0, 0, 0, 0, 0, 0, 0xff, 0xff, 0xff, 0xff, 0, 0]"

text \<open>
  \<open>spoofed_zip\<close> with an EOCD record that declares the length 45 of the Central
  Directory instead of 46.
\<close>

definition not_adjacent_zip :: "byte list" where
  "not_adjacent_zip = filler16 @ cd_entry @
     [0x50, 0x4b, 0x05, 0x06, 0, 0, 0, 0, 1, 0, 1, 0, 0x2d, 0, 0, 0, 0x10, 0, 0, 0, 0x16, 0] @
     [0x50, 0x4b, 0x05, 0x06, 0, 0, 0, 0, 0, 0, 0, 0, 0, 0, 0, 0, 0x30, 0, 0, 0, 0, 0]"

text \<open>
  \<open>spoofed_far_zip\<close> with an EOCD record that declares the length 45 of the Central
  Directory instead of 46.
\<close>

definition not_adjacent_far_zip :: "byte list" where
  "not_adjacent_far_zip = filler16 @ cd_entry @
     [0x50, 0x4b, 0x05, 0x06, 0, 0, 0, 0, 1, 0, 1, 0, 0x2d, 0, 0, 0, 0x10, 0, 0, 0, 0x16, 0] @
     [0x50, 0x4b, 0x05, 0x06, 0, 0, 0, 0, 0, 0, 0, 0, 0, 0, 0, 0, 0xff, 0xff, 0xff, 0xff, 0, 0]"

text \<open>The archive with a comment of 65535 zero bytes, the longest the format allows.\<close>

definition long_comment_zip :: "byte list" where
  "long_comment_zip = (filler16 @ cd_entry @
     [0x50, 0x4b, 0x05, 0x06, 0, 0, 0, 0, 1, 0, 1, 0, 0x2e, 0, 0, 0, 0x10, 0, 0, 0, 0xff, 0xff])
     @ replicate 65535 0"

text \<open>
  \<open>long_comment_zip\<close> with an EOCD record that declares the length 45 of the Central
  Directory instead of 46.
\<close>

definition not_adjacent_long_zip :: "byte list" where
  "not_adjacent_long_zip = (filler16 @ cd_entry @
     [0x50, 0x4b, 0x05, 0x06, 0, 0, 0, 0, 1, 0, 1, 0, 0x2d, 0, 0, 0, 0x10, 0, 0, 0, 0xff, 0xff])
     @ replicate 65535 0"

text \<open>
  A signing block at the very start of the buffer, and an archive with one byte in front
  of a signing block of size 26 with the content \<open>[0xaa, 0xbb]\<close>.
\<close>

definition block_at_zero_zip :: "byte list" where
  "block_at_zero_zip = empty_block @ cd_entry @
     [0x50, 0x4b, 0x05, 0x06, 0, 0, 0, 0, 1, 0, 1, 0, 0x2e, 0, 0, 0, 0x20, 0, 0, 0, 0, 0]"

definition signed_zip :: "byte list" where
  "signed_zip = [0] @
     [0x1a, 0, 0, 0, 0, 0, 0, 0, 0xaa, 0xbb, 0x1a, 0, 0, 0, 0, 0, 0, 0,
      0x41, 0x50, 0x4b, 0x20, 0x53, 0x69, 0x67, 0x20,
      0x42, 0x6c, 0x6f, 0x63, 0x6b, 0x20, 0x34, 0x32] @ cd_entry @
     [0x50, 0x4b, 0x05, 0x06, 0, 0, 0, 0, 1, 0, 1, 0, 0x2e, 0, 0, 0, 0x23, 0, 0, 0, 0, 0]"

text \<open>
  \<open>signed_zip\<close> with the value 27 in the size field at the start of the block and
  the value 26 in the size field in front of the magic.
\<close>

definition mismatched_zip :: "byte list" where
  "mismatched_zip = [0] @
     [0x1b, 0, 0, 0, 0, 0, 0, 0, 0xaa, 0xbb, 0x1a, 0, 0, 0, 0, 0, 0, 0,
      0x41, 0x50, 0x4b, 0x20, 0x53, 0x69, 0x67, 0x20,
      0x42, 0x6c, 0x6f, 0x63, 0x6b, 0x20, 0x34, 0x32] @ cd_entry @
     [0x50, 0x4b, 0x05, 0x06, 0, 0, 0, 0, 1, 0, 1, 0, 0x2e, 0, 0, 0, 0x23, 0, 0, 0, 0, 0]"

text \<open>
  An archive whose Central Directory starts at offset 0, and an archive with the magic
  of the signing block behind a single size field of value 16.
\<close>

definition cd_at_zero_zip :: "byte list" where
  "cd_at_zero_zip = cd_entry @
     [0x50, 0x4b, 0x05, 0x06, 0, 0, 0, 0, 1, 0, 1, 0, 0x2e, 0, 0, 0, 0, 0, 0, 0, 0, 0]"

definition short_block_zip :: "byte list" where
  "short_block_zip = filler16 @
     [0x10, 0, 0, 0, 0, 0, 0, 0,
      0x41, 0x50, 0x4b, 0x20, 0x53, 0x69, 0x67, 0x20,
      0x42, 0x6c, 0x6f, 0x63, 0x6b, 0x20, 0x34, 0x32] @ cd_entry @
     [0x50, 0x4b, 0x05, 0x06, 0, 0, 0, 0, 1, 0, 1, 0, 0x2e, 0, 0, 0, 0x28, 0, 0, 0, 0, 0]"

text \<open>A reader of the entry table that accepts every buffer and finds no member.\<close>

definition no_members :: reader where
  "no_members buf = Some []"

text \<open>
  The descriptors the locator returns for \<open>plain_zip\<close>, \<open>signed_zip\<close>,
  \<open>block_at_zero_zip\<close> and \<open>spoofed_zip\<close>, and the buffer the injector returns for
  \<open>spoofed_zip\<close> and \<open>empty_block\<close>.
\<close>

definition plain_descr :: ApkSign where
  "plain_descr = \<lparr>IsAPK = False, IsV2Signed = False, raw = plain_zip, size_f = 84,
     eocdOffset = 62, cdOffset = 16, asv2Offset = 0, rawASv2 = []\<rparr>"

definition signed_descr :: ApkSign where
  "signed_descr = \<lparr>IsAPK = False, IsV2Signed = True, raw = signed_zip, size_f = 103,
     eocdOffset = 81, cdOffset = 35, asv2Offset = 1, rawASv2 = [0xaa, 0xbb]\<rparr>"

definition block_at_zero_descr :: ApkSign where
  "block_at_zero_descr = \<lparr>IsAPK = False, IsV2Signed = False, raw = block_at_zero_zip,
     size_f = 100, eocdOffset = 78, cdOffset = 32, asv2Offset = 0, rawASv2 = []\<rparr>"






section \<open>Little-endian fields\<close>

lemma Uint32_take [simp]: "Uint32 (take 4 b) = Uint32 b"
  unfolding Uint32_def by simp

lemma Uint16_take [simp]: "Uint16 (take 2 b) = Uint16 b"
  unfolding Uint16_def by simp

lemma Uint64_take [simp]: "Uint64 (take 8 b) = Uint64 b"
  unfolding Uint64_def by (simp only: take_take min.idem)

lemma le_word_low: "8 \<le> LENGTH('a::len) \<Longrightarrow> ucast (le_word (x # xs) :: 'a word) = x"
  by (simp add: le_word_def) (rule bit_word_eqI, auto simp add: bit_simps)

lemma Uint32_first: "Uint32 (x # xs) = w \<Longrightarrow> x = ucast w"
  using le_word_low [where 'a = 32, of x "take 3 xs"] by (simp add: Uint32_def)

lemma Uint32_PutUint32: "Uint32 (PutUint32 v @ xs) = v"
proof -
  have "(le_word (PutUint32 v) :: uint32) = v"
    unfolding le_word_def PutUint32_def
  proof (rule bit_word_eqI)
    fix n assume "n < LENGTH(32)"
    then have n: "n < 32" by simp
    consider "n < 8" | "8 \<le> n" "n < 16" | "16 \<le> n" "n < 24" | "24 \<le> n" "n < 32"
      using n by linarith
    then show "bit (foldr (\<lambda>b w. ucast b OR push_bit 8 w)
        [ucast v, ucast (drop_bit 8 v), ucast (drop_bit 16 v), ucast (drop_bit 24 v) :: byte]
        (0 :: uint32)) n = bit v n"
      by cases (auto simp add: bit_simps)
  qed
  then show ?thesis by (simp add: Uint32_def PutUint32_def)
qed

lemma length_PutUint32 [simp]: "length (PutUint32 v) = 4"
  by (simp add: PutUint32_def)




lemma Uint32_append: "4 \<le> length xs \<Longrightarrow> Uint32 (xs @ ys) = Uint32 xs"
  by (simp add: Uint32_def)

section \<open>Arithmetic of 64-bit offsets\<close>

lemma mod_wrap_hi:
  assumes "m \<le> k" and "k < 2 * m"
  shows "(k::int) mod m = k - m"
proof -
  have "k mod m = (k - m) mod m" by simp
  also have "\<dots> = k - m" using assms by (intro mod_pos_pos_trivial) simp_all
  finally show ?thesis .
qed

lemma mod_wrap_lo:
  assumes "- m \<le> k" and "k < 0"
  shows "(k::int) mod m = k + m"
proof -
  have "k mod m = (k + m) mod m" by simp
  also have "\<dots> = k + m" using assms by (intro mod_pos_pos_trivial) simp_all
  finally show ?thesis .
qed

lemma uint64_bounds: "0 \<le> uint (w :: uint64)" "uint (w :: uint64) < 18446744073709551616"
  using uint_bounded [of w] by simp_all

lemma uint_le_int_iff: "uint (w :: 'a::len word) \<le> int n \<longleftrightarrow> unat w \<le> n"
  by (simp only: unat_eq_nat_uint nat_le_iff)

lemma sint64:
  "sint (w :: uint64)
     = (if uint w < 9223372036854775808 then uint w else uint w - 18446744073709551616)"
proof (cases "uint w < 9223372036854775808")
  case True
  have "- (2 ^ 63) \<le> uint w"
    by (rule order_trans [of _ 0]) simp_all
  with True have "signed_take_bit 63 (uint w) = uint w"
    by (intro signed_take_bit_int_eq_self) simp_all
  with True show ?thesis by (simp add: sint_uint)
next
  case False
  then have "(uint w + 2 ^ 63) mod 2 ^ 64 = uint w + 2 ^ 63 - 2 ^ 64"
    using uint64_bounds [of w] by (intro mod_wrap_hi) simp_all
  with False show ?thesis
    by (simp add: sint_uint signed_take_bit_eq_take_bit_shift take_bit_eq_mod)
qed

lemma uint_plus8:
  "uint (s + 8 :: uint64)
     = (if uint s < 18446744073709551608 then uint s + 8 else uint s + 8 - 18446744073709551616)"
proof (cases "uint s < 18446744073709551608")
  case True
  then show ?thesis using uint64_bounds [of s] by (simp add: uint_word_ariths mod_pos_pos_trivial)
next
  case False
  then have "(uint s + 8) mod 2 ^ 64 = uint s + 8 - 2 ^ 64"
    using uint64_bounds [of s] by (intro mod_wrap_hi) simp_all
  with False show ?thesis by (simp add: uint_word_ariths)
qed

lemma uint_sub_cases:
  "uint (a - b :: uint64)
     = (if uint b \<le> uint a then uint a - uint b else uint a - uint b + 18446744073709551616)"
proof (cases "uint b \<le> uint a")
  case True
  then have "0 \<le> uint a - uint b" "uint a - uint b < 18446744073709551616"
    using uint64_bounds [of a] uint64_bounds [of b] by linarith+
  then have "(uint a - uint b) mod 18446744073709551616 = uint a - uint b"
    by (rule mod_pos_pos_trivial)
  with True show ?thesis by (simp add: uint_word_ariths)
next
  case False
  then have "- 18446744073709551616 \<le> uint a - uint b" "uint a - uint b < 0"
    using uint64_bounds [of a] uint64_bounds [of b] by linarith+
  then have "(uint a - uint b) mod 18446744073709551616
      = uint a - uint b + 18446744073709551616"
    by (rule mod_wrap_lo)
  with False show ?thesis by (simp add: uint_word_ariths)
qed

lemma uint_add_cases:
  "uint (a + b :: uint64)
     = (if uint a + uint b < 18446744073709551616 then uint a + uint b
        else uint a + uint b - 18446744073709551616)"
proof (cases "uint a + uint b < 18446744073709551616")
  case True
  then have "0 \<le> uint a + uint b"
    using uint64_bounds [of a] uint64_bounds [of b] by linarith
  with True have "(uint a + uint b) mod 18446744073709551616 = uint a + uint b"
    by (intro mod_pos_pos_trivial)
  with True show ?thesis by (simp add: uint_word_ariths)
next
  case False
  then have "18446744073709551616 \<le> uint a + uint b"
    "uint a + uint b < 2 * 18446744073709551616"
    using uint64_bounds [of a] uint64_bounds [of b] by linarith+
  then have "(uint a + uint b) mod 18446744073709551616
      = uint a + uint b - 18446744073709551616"
    by (rule mod_wrap_hi)
  with False show ?thesis by (simp add: uint_word_ariths)
qed

lemma uint_ucast32: "uint (ucast (w :: uint32) :: uint64) < 4294967296"
proof -
  have "uint (ucast w :: uint64) = uint w" by (simp add: uint_up_ucast is_up)
  then show ?thesis using uint_bounded [of w] by simp
qed

lemma unat_ucast32: "unat (ucast (w :: uint32) :: uint64) = unat w"
proof -
  have "uint (ucast w :: uint64) = uint w" by (simp add: uint_up_ucast is_up)
  then show ?thesis by (simp only: unat_eq_nat_uint)
qed





lemma ucast_of_nat_down: "(ucast (word_of_nat k :: uint64) :: uint32) = word_of_nat k"
  by (rule bit_word_eqI) (simp add: bit_simps)

section \<open>Slices and copies\<close>

lemma go_slice_window:
  "go_slice buf (int (length buf) - 22 - int i) (int (length buf) - 22 - int i + 22)
     = (if i + 22 \<le> length buf then Inr (window buf i) else Inl RuntimePanic)"
proof (cases "i + 22 \<le> length buf")
  case True
  then have "nat (int (length buf) - 22 - int i) = length buf - 22 - i"
    and "nat (int (length buf) - 22 - int i + 22) - nat (int (length buf) - 22 - int i) = 22"
    by linarith+
  with True show ?thesis by (simp add: go_slice_def window_def)
next
  case False
  then show ?thesis by (simp add: go_slice_def)
qed

lemma go_slice_from_unat:
  "go_slice_from buf (uint (w :: 'a::len word))
     = (if unat w \<le> length buf then Inr (drop (unat w) buf) else Inl RuntimePanic)"
  by (simp add: go_slice_from_def go_slice_def uint_le_int_iff)

lemma go_slice_8:
  "go_slice buf (sint (s :: uint64)) (sint (s + 8))
     = (if uint s < 9223372036854775800 \<and> unat s + 8 \<le> length buf
        then Inr (take 8 (drop (unat s) buf)) else Inl RuntimePanic)"
proof -
  note b = uint64_bounds [of s]
  show ?thesis
  proof (cases "uint s < 9223372036854775800")
    case True
    then have 1: "sint s = uint s"
      by (simp add: sint64)
    from True have 0: "uint (s + 8) = uint s + 8"
      by (simp add: uint_plus8)
    from True have 2: "sint (s + 8) = uint s + 8"
      by (simp add: sint64 0)
    have u: "uint s = int (unat s)" by (rule uint_nat)
    have 3: "nat (uint s + 8) - unat s = 8" using u by linarith
    have 4: "uint s + 8 \<le> int (length buf) \<longleftrightarrow> unat s + 8 \<le> length buf"
      using u by linarith
    show ?thesis using True by (simp add: go_slice_def 1 2 3 4)
  next
    case False
    then have "\<not> (0 \<le> sint s \<and> sint s \<le> sint (s + 8))"
      using b by (auto simp add: sint64 uint_plus8 split: if_splits)
    then show ?thesis using False by (auto simp add: go_slice_def)
  qed
qed

lemma go_slice_magic:
  assumes "uint (cd :: uint64) < 4294967296"
  shows "go_slice buf (sint cd - 16) (uint cd)
     = (if 16 \<le> unat cd \<and> unat cd \<le> length buf
        then Inr (take 16 (drop (unat cd - 16) buf)) else Inl RuntimePanic)"
proof -
  have u: "uint cd = int (unat cd)" by (rule uint_nat)
  have s: "sint cd = uint cd" using assms by (simp add: sint64)
  show ?thesis
  proof (cases "16 \<le> unat cd \<and> unat cd \<le> length buf")
    case True
    then have "nat (uint cd) - nat (uint cd - 16) = 16" "nat (uint cd - 16) = unat cd - 16"
      "0 \<le> uint cd - 16" "uint cd \<le> int (length buf)"
      using u by linarith+
    with True show ?thesis by (simp add: go_slice_def s)
  next
    case False
    then have "\<not> (0 \<le> uint cd - 16 \<and> uint cd \<le> int (length buf))"
      using u by linarith
    then show ?thesis using False by (auto simp add: go_slice_def s)
  qed
qed

lemma go_slice_postSize:
  assumes "uint (cd :: uint64) < 4294967296" "unat cd \<le> length buf"
  shows "go_slice buf (sint (cd - 16 - 8)) (sint (cd - 16 - 8 + 8))
     = (if 24 \<le> unat cd then Inr (take 8 (drop (unat cd - 24) buf)) else Inl RuntimePanic)"
proof -
  have e: "cd - 16 - 8 = cd - 24" by simp
  have u: "uint cd = int (unat cd)" by (rule uint_nat)
  have v: "uint (cd - 24) = int (unat (cd - 24))" by (rule uint_nat)
  have w: "uint (24 :: uint64) = 24" by simp
  show ?thesis
  proof (cases "24 \<le> unat cd")
    case True
    then have "24 \<le> uint cd" using u by linarith
    then have "uint (cd - 24) = uint cd - 24" by (simp add: uint_sub_cases w)
    then have "unat (cd - 24) = unat cd - 24" "uint (cd - 24) < 9223372036854775800"
      "unat (cd - 24) + 8 \<le> length buf"
      using u v assms True by linarith+
    with True show ?thesis unfolding e go_slice_8 by simp
  next
    case False
    then have "\<not> 24 \<le> uint cd" using u by linarith
    then have "uint (cd - 24) = uint cd - 24 + 18446744073709551616"
      by (simp add: uint_sub_cases w)
    moreover have "0 \<le> uint cd" by simp
    ultimately have "\<not> uint (cd - 24) < 9223372036854775800" by linarith
    with False show ?thesis unfolding e go_slice_8 by simp
  qed
qed

lemma make_bytes_uint:
  "make_bytes (uint (w :: uint64))
     = (if uint w \<le> 281474976710656 then Inr (replicate (unat w) 0) else Inl RuntimePanic)"
  by (simp add: make_bytes_def maxAlloc_def)

lemma go_slice_from_plus8:
  assumes "uint (s :: uint64) < 9223372036854775800" "unat s + 8 \<le> length buf"
  shows "go_slice_from buf (sint (s + 8)) = Inr (drop (unat s + 8) buf)"
proof -
  have u: "uint s = int (unat s)" by (rule uint_nat)
  have 0: "uint (s + 8) = uint s + 8" using assms by (simp add: uint_plus8)
  have 2: "sint (s + 8) = uint s + 8" using assms by (simp add: sint64 0)
  have 3: "nat (uint s + 8) = unat s + 8" using u by linarith
  have 4: "uint s + 8 \<le> int (length buf)" using u assms by linarith
  show ?thesis using 4 by (simp add: go_slice_from_def go_slice_def 2 3)
qed

lemma go_copy_eq: "go_copy dst src = take (length dst) src @ drop (length src) dst"
proof (cases "length dst \<le> length src")
  case True
  then show ?thesis by (simp add: go_copy_def min_def)
next
  case False
  then show ?thesis by (simp add: go_copy_def min_def)
qed

lemma copy_into_segment:
  assumes "lo = int (length A)" and "hi = int (length A + length B)"
  shows "copy_into (A @ B @ C) lo hi src = Inr (A @ take (length B) src @ drop (length src) B @ C)"
proof -
  have "go_slice (A @ B @ C) lo hi = Inr B"
    using assms by (simp add: go_slice_def)
  then show ?thesis using assms by (simp add: copy_into_def go_copy_eq)
qed

section \<open>The loop of the locator\<close>

lemma probe_Continue_iff: "probe rd buf i = Continue \<longleftrightarrow> passed_over buf i"
  unfolding probe_def go_slice_window go_slice_from_unat
  by (auto simp add: passed_over_def declared_cd_def)

lemma probe_corroborated:
  "corroborated buf i \<Longrightarrow>
   probe rd buf i = Return
     (if ucast (declared_cd buf i) + ucast (declared_cd_len buf i)
           \<noteq> (word_of_nat (length buf) - 22 - word_of_nat i :: uint64)
      then Inl CDNotAdjacentToEOCD
      else accept rd buf (ucast (declared_cd buf i))
             (word_of_nat (length buf) - 22 - word_of_nat i))"
  unfolding probe_def go_slice_window go_slice_from_unat
  by (auto simp add: corroborated_def declared_cd_def declared_cd_len_def)

lemma probe_Return_cases:
  "probe rd buf i = Return r \<Longrightarrow> r = Inl RuntimePanic \<or> corroborated buf i"
  unfolding probe_def go_slice_window go_slice_from_unat
  by (auto simp add: corroborated_def declared_cd_def split: if_splits)

lemma scan_Continue:
  "i < 65535 \<Longrightarrow> probe rd buf i = Continue \<Longrightarrow> scan rd buf i = scan rd buf (Suc i)"
  by (subst scan.simps) simp

lemma scan_Return: "i < 65535 \<Longrightarrow> probe rd buf i = Return r \<Longrightarrow> scan rd buf i = r"
  by (subst scan.simps) simp

lemma scan_exhausted: "65535 \<le> i \<Longrightarrow> scan rd buf i = Inl NotAZipContainer"
  by (subst scan.simps) simp

lemma scan_passed_over:
  "k \<le> 65535 \<Longrightarrow> i \<le> k \<Longrightarrow> (\<And>j. i \<le> j \<Longrightarrow> j < k \<Longrightarrow> passed_over buf j) \<Longrightarrow>
   scan rd buf i = scan rd buf k"
proof (induction "k - i" arbitrary: i)
  case 0
  then show ?case by simp
next
  case (Suc n)
  then have "i < k" and "i < 65535" by linarith+
  then have "scan rd buf i = scan rd buf (Suc i)"
    using Suc.prems(3) [of i] by (simp add: scan_Continue probe_Continue_iff)
  also have "scan rd buf (Suc i) = scan rd buf k"
    using Suc.hyps Suc.prems \<open>i < k\<close> by (intro Suc.hyps(1)) auto
  finally show ?case .
qed

lemma scan_Inr_cases:
  "scan rd buf i = Inr z \<Longrightarrow>
   \<exists>j. i \<le> j \<and> j < 65535 \<and> (\<forall>k. i \<le> k \<and> k < j \<longrightarrow> passed_over buf k) \<and>
       probe rd buf j = Return (Inr z)"
proof (induction rd buf i rule: scan.induct)
  case (1 rd buf i)
  show ?case
  proof (cases "i < 65535")
    case False
    with "1.prems" show ?thesis by (simp add: scan_exhausted)
  next
    case lt: True
    show ?thesis
    proof (cases "probe rd buf i")
      case Continue
      with lt "1.prems" have "scan rd buf (i + 1) = Inr z" by (simp add: scan_Continue)
      from "1.IH" [OF lt Continue this] obtain j where
        j: "i + 1 \<le> j" "j < 65535" "\<forall>k. i + 1 \<le> k \<and> k < j \<longrightarrow> passed_over buf k"
           "probe rd buf j = Return (Inr z)" by blast
      have "\<forall>k. i \<le> k \<and> k < j \<longrightarrow> passed_over buf k"
      proof (intro allI impI)
        fix k assume "i \<le> k \<and> k < j"
        then show "passed_over buf k"
          using j(3) Continue probe_Continue_iff [of rd buf i] by (cases "k = i") auto
      qed
      with j show ?thesis by (intro exI [of _ j]) auto
    next
      case (Return r)
      with lt "1.prems" have "r = Inr z" by (simp add: scan_Return)
      with Return lt show ?thesis by (intro exI [of _ i]) auto
    qed
  qed
qed

section \<open>The search for the signing block\<close>

lemma copy_asv2_eq:
  assumes "uint (cdOffset z - post - 8) < 9223372036854775800"
    and "unat (cdOffset z - post - 8) + 8 \<le> length (raw z)"
  shows "copy_asv2 z pre post =
     (if uint (pre - 24) \<le> 281474976710656
      then Inr (z\<lparr>asv2Offset := cdOffset z - post - 8,
                  rawASv2 := go_copy (replicate (unat (pre - 24)) 0)
                               (drop (unat (cdOffset z - post - 8) + 8) (raw z))\<rparr>)
      else Inl RuntimePanic)"
  by (simp only: copy_asv2_def make_bytes_uint go_slice_from_plus8 [OF assms] sum.case
      split: if_split) simp

lemma find_asv2_eq:
  assumes cd32: "uint (cdOffset z) < 4294967296"
  shows "find_asv2 z =
    (if \<not> (16 \<le> unat (cdOffset z) \<and> unat (cdOffset z) \<le> length (raw z)) then Inl RuntimePanic
     else if \<not> magic_before (raw z) (cdOffset z) then Inr z
     else if unat (cdOffset z) < 24 then Inl RuntimePanic
     else if \<not> (uint (asv2_start z) < 9223372036854775800 \<and>
                 unat (asv2_start z) + 8 \<le> length (raw z)) then Inl RuntimePanic
     else if preSize (raw z) (cdOffset z) \<noteq> postSize (raw z) (cdOffset z)
       then Inr (z\<lparr>IsV2Signed := 0 < asv2Offset z\<rparr>)
     else if \<not> uint (postSize (raw z) (cdOffset z) - 24) \<le> 281474976710656
       then Inl RuntimePanic
     else Inr (z\<lparr>asv2Offset := asv2_start z,
             rawASv2 := go_copy (replicate (unat (postSize (raw z) (cdOffset z) - 24)) 0)
                (drop (unat (asv2_start z) + 8) (raw z)),
             IsV2Signed := 0 < asv2_start z\<rparr>))"
proof -
  define cd where "cd = cdOffset z"
  define buf where "buf = raw z"
  define post where "post = postSize buf cd"
  define pre where "pre = preSize buf cd"
  define s where "s = cd - post - 8"
  note defs = cd_def [symmetric] buf_def [symmetric]
  have s_eq: "asv2_start z = s"
    by (simp add: asv2_start_def s_def post_def cd_def buf_def)
  have cd32': "uint cd < 4294967296" using cd32 by (simp add: cd_def)
  note g1 = go_slice_magic [OF cd32', of buf]
  have G: "find_asv2 z =
    (if \<not> (16 \<le> unat cd \<and> unat cd \<le> length buf) then Inl RuntimePanic
     else if \<not> magic_before buf cd then Inr z
     else if unat cd < 24 then Inl RuntimePanic
     else if \<not> (uint s < 9223372036854775800 \<and> unat s + 8 \<le> length buf) then Inl RuntimePanic
     else if pre \<noteq> post then Inr (z\<lparr>IsV2Signed := 0 < asv2Offset z\<rparr>)
     else if \<not> uint (post - 24) \<le> 281474976710656 then Inl RuntimePanic
     else Inr (z\<lparr>asv2Offset := s,
             rawASv2 := go_copy (replicate (unat (post - 24)) 0) (drop (unat s + 8) buf),
             IsV2Signed := 0 < s\<rparr>))"
  proof (cases "16 \<le> unat cd \<and> unat cd \<le> length buf")
    case False
    then have "find_asv2 z = Inl RuntimePanic"
      by (simp only: find_asv2_def defs g1 if_False sum.case simp_thms)
    with False show ?thesis by (simp only: if_True simp_thms)
  next
    case in_range: True
    then have e1: "go_slice buf (sint cd - 16) (uint cd) = Inr (take 16 (drop (unat cd - 16) buf))"
      by (simp only: g1 if_True simp_thms)
    show ?thesis
    proof (cases "magic_before buf cd")
      case False
      then have "take 16 (drop (unat cd - 16) buf) \<noteq> sig_magic"
        by (simp add: magic_before_def)
      then have "find_asv2 z = Inr z"
        by (simp only: find_asv2_def defs e1 sum.case if_True simp_thms)
      with in_range False show ?thesis by (simp only: if_True if_False simp_thms)
    next
      case magic: True
      then have e2: "(take 16 (drop (unat cd - 16) buf) \<noteq> sig_magic) = False"
        by (simp add: magic_before_def)
      from in_range have le: "unat cd \<le> length buf" by simp
      note g2 = go_slice_postSize [OF cd32' le]
      show ?thesis
      proof (cases "24 \<le> unat cd")
        case False
        then have "find_asv2 z = Inl RuntimePanic"
          by (simp only: find_asv2_def defs e1 e2 g2 if_False sum.case simp_thms)
        with in_range magic False show ?thesis
          by (simp only: if_True if_False simp_thms not_le [symmetric])
      next
        case cd24: True
        then have e3: "go_slice buf (sint (cd - 16 - 8)) (sint (cd - 16 - 8 + 8))
            = Inr (take 8 (drop (unat cd - 24) buf))"
          by (simp only: g2 if_True simp_thms)
        have e4: "Uint64 (take 8 (drop (unat cd - 24) buf)) = post"
          by (simp only: Uint64_take post_def postSize_def)
        note g3 = go_slice_8 [of buf s]
        from cd24 have cd24': "(unat cd < 24) = False" by simp
        show ?thesis
        proof (cases "uint s < 9223372036854775800 \<and> unat s + 8 \<le> length buf")
          case False
          then have "go_slice buf (sint (cd - post - 8)) (sint (cd - post - 8 + 8))
              = Inl RuntimePanic"
            using g3 by (simp only: s_def if_False simp_thms)
          then have "find_asv2 z = Inl RuntimePanic"
            by (simp only: find_asv2_def defs e1 e2 e3 e4 if_False sum.case simp_thms)
          with in_range magic cd24' False show ?thesis
            by (simp only: if_True if_False simp_thms)
        next
          case s_ok: True
          then have e5: "go_slice buf (sint (cd - post - 8)) (sint (cd - post - 8 + 8))
              = Inr (take 8 (drop (unat s) buf))"
            using g3 by (simp only: s_def if_True simp_thms)
          have e6: "Uint64 (take 8 (drop (unat s) buf)) = pre"
            by (simp only: Uint64_take pre_def preSize_def s_def post_def)
          show ?thesis
          proof (cases "pre = post")
            case False
            then have "find_asv2 z = Inr (z\<lparr>IsV2Signed := 0 < asv2Offset z\<rparr>)"
              by (simp only: find_asv2_def defs e1 e2 e3 e4 e5 e6 if_False sum.case simp_thms)
            with in_range magic cd24' s_ok False show ?thesis
              by (simp only: if_True if_False simp_thms)
          next
            case eq: True
            have c: "copy_asv2 z post post =
               (if uint (post - 24) \<le> 281474976710656
                then Inr (z\<lparr>asv2Offset := cd - post - 8,
                    rawASv2 := go_copy (replicate (unat (post - 24)) 0)
                               (drop (unat (cd - post - 8) + 8) buf)\<rparr>)
                else Inl RuntimePanic)"
              using s_ok copy_asv2_eq [of z post post]
              by (simp only: s_def cd_def buf_def)
            show ?thesis
            proof (cases "uint (post - 24) \<le> 281474976710656")
              case False
              then have "find_asv2 z = Inl RuntimePanic"
                by (simp only: find_asv2_def defs e1 e2 e3 e4 e5 e6 eq c if_False if_True
                    sum.case simp_thms refl)
              with in_range magic cd24' s_ok eq False show ?thesis
                by (simp only: if_True if_False simp_thms)
            next
              case alloc: True
              then have "find_asv2 z = Inr (z\<lparr>asv2Offset := cd - post - 8,
                    rawASv2 := go_copy (replicate (unat (post - 24)) 0)
                               (drop (unat (cd - post - 8) + 8) buf),
                    IsV2Signed := 0 < cd - post - 8\<rparr>)"
                by (simp only: find_asv2_def defs e1 e2 e3 e4 e5 e6 eq c if_False if_True
                    sum.case simp_thms refl) simp
              with in_range magic cd24' s_ok eq alloc show ?thesis
                by (simp only: if_True if_False simp_thms s_def)
            qed
          qed
        qed
      qed
    qed
  qed
  then show ?thesis by (simp only: s_eq defs pre_def post_def)
qed

lemma asv2_start_arith:
  assumes "uint (cd :: uint64) < 4294967296"
    and "uint (cd - post - 8) < 9223372036854775800"
    and "uint (post - 24) \<le> 281474976710656"
  shows "24 \<le> uint post" and "uint (cd - post - 8) + uint post + 8 = uint cd"
    and "uint (post - 24) = uint post - 24"
proof -
  note bp = uint64_bounds [of post] and bc = uint64_bounds [of cd]
  have w24: "uint (24 :: uint64) = 24" and w8: "uint (8 :: uint64) = 8" by simp_all
  have p: "uint (post - 24)
      = (if 24 \<le> uint post then uint post - 24 else uint post - 24 + 18446744073709551616)"
    by (simp add: uint_sub_cases w24)
  show p24: "24 \<le> uint post"
  proof (rule ccontr)
    assume "\<not> 24 \<le> uint post"
    then have "uint (post - 24) = uint post - 24 + 18446744073709551616" using p by simp
    then show False using assms(3) bp by linarith
  qed
  then show p': "uint (post - 24) = uint post - 24" using p by simp
  have a: "uint (cd - post)
      = (if uint post \<le> uint cd then uint cd - uint post
         else uint cd - uint post + 18446744073709551616)"
    by (rule uint_sub_cases)
  have b: "uint (cd - post - 8)
      = (if 8 \<le> uint (cd - post) then uint (cd - post) - 8
         else uint (cd - post) - 8 + 18446744073709551616)"
    using uint_sub_cases [of "cd - post" 8] by (simp only: w8)
  have u: "uint post \<le> 281474976710680" using p' assms(3) by linarith
  show "uint (cd - post - 8) + uint post + 8 = uint cd"
  proof (cases "uint post \<le> uint cd")
    case True
    then have a': "uint (cd - post) = uint cd - uint post" using a by simp
    show ?thesis
    proof (cases "8 \<le> uint (cd - post)")
      case True
      then have "uint (cd - post - 8) = uint (cd - post) - 8" using b by simp
      then show ?thesis using a' by linarith
    next
      case False
      then have "uint (cd - post - 8) = uint (cd - post) - 8 + 18446744073709551616"
        using b by simp
      then show ?thesis using a' assms(1,2) \<open>uint post \<le> uint cd\<close> by linarith
    qed
  next
    case False
    then have a': "uint (cd - post) = uint cd - uint post + 18446744073709551616"
      using a by simp
    then have "8 \<le> uint (cd - post)" using u bc by linarith
    then have "uint (cd - post - 8) = uint (cd - post) - 8" using b by simp
    then show ?thesis using a' assms(2) u bc by linarith
  qed
qed

lemma find_asv2_Inr_fields:
  assumes "find_asv2 z0 = Inr z" and "uint (cdOffset z0) < 4294967296"
  shows "raw z = raw z0" "size_f z = size_f z0" "cdOffset z = cdOffset z0"
    "eocdOffset z = eocdOffset z0" "IsAPK z = IsAPK z0"
    "16 \<le> unat (cdOffset z0)" "unat (cdOffset z0) \<le> length (raw z0)"
  using assms(1) unfolding find_asv2_eq [OF assms(2)]
  by (auto split: if_splits)

lemma find_asv2_Inr_unsigned:
  assumes "find_asv2 z0 = Inr z" and "uint (cdOffset z0) < 4294967296"
    and "asv2Offset z0 = 0 \<and> \<not> IsV2Signed z0"
    and "\<not> (magic_before (raw z0) (cdOffset z0) \<and>
            preSize (raw z0) (cdOffset z0) = postSize (raw z0) (cdOffset z0))"
  shows "asv2Offset z = 0" "\<not> IsV2Signed z" "rawASv2 z = rawASv2 z0"
  using assms(1,3,4) unfolding find_asv2_eq [OF assms(2)]
  by (auto split: if_splits)

lemma find_asv2_Inr_matched:
  assumes "find_asv2 z0 = Inr z" and "uint (cdOffset z0) < 4294967296"
    and "magic_before (raw z0) (cdOffset z0)"
    and "preSize (raw z0) (cdOffset z0) = postSize (raw z0) (cdOffset z0)"
  shows "asv2Offset z = asv2_start z0"
    "IsV2Signed z \<longleftrightarrow> 0 < asv2_start z0"
    "rawASv2 z = go_copy (replicate (unat (postSize (raw z0) (cdOffset z0) - 24)) 0)
                (drop (unat (asv2_start z0) + 8) (raw z0))"
    "uint (asv2_start z0) < 9223372036854775800"
    "unat (asv2_start z0) + 8 \<le> length (raw z0)"
    "uint (postSize (raw z0) (cdOffset z0) - 24) \<le> 281474976710656"
  using assms(1,3,4) unfolding find_asv2_eq [OF assms(2)]
  by (auto split: if_splits)

lemma length_go_copy [simp]: "length (go_copy dst src) = length dst"
  by (simp add: go_copy_def)


section \<open>What the locator returns\<close>

lemma NewApkSign_Inr_E:
  assumes "NewApkSign rd buf = Inr z"
  obtains i names where "i < 65535" and "\<forall>k<i. passed_over buf k" and "corroborated buf i"
    and "ucast (declared_cd buf i) + ucast (declared_cd_len buf i)
           = (word_of_nat (length buf) - 22 - word_of_nat i :: uint64)"
    and "rd buf = Some names"
    and "find_asv2 (located (is_apk names) buf i) = Inr z"
proof -
  from assms have "scan rd buf 0 = Inr z"
    by (simp add: NewApkSign_def split: if_splits)
  from scan_Inr_cases [OF this] obtain i where i: "i < 65535"
    "\<forall>k<i. passed_over buf k" "probe rd buf i = Return (Inr z)" by auto
  from probe_Return_cases [OF i(3)] have c: "corroborated buf i" by simp
  from probe_corroborated [OF c, of rd] i(3)
  have adj: "ucast (declared_cd buf i) + ucast (declared_cd_len buf i)
           = (word_of_nat (length buf) - 22 - word_of_nat i :: uint64)"
    and acc: "accept rd buf (ucast (declared_cd buf i))
             (word_of_nat (length buf) - 22 - word_of_nat i) = Inr z"
    by (simp_all split: if_splits)
  from acc obtain names where n: "rd buf = Some names"
    "find_asv2 (located (is_apk names) buf i) = Inr z"
    by (auto simp add: accept_def located_def split: option.splits)
  from i(1,2) c adj n show thesis by (rule that)
qed

lemma NewApkSign_Inr_I:
  assumes "i < 65535" and "\<And>k. k < i \<Longrightarrow> passed_over buf k" and "corroborated buf i"
    and "ucast (declared_cd buf i) + ucast (declared_cd_len buf i)
           = (word_of_nat (length buf) - 22 - word_of_nat i :: uint64)"
    and "rd buf = Some names"
  shows "NewApkSign rd buf = find_asv2 (located (is_apk names) buf i)"
proof -
  from assms(3) have "22 \<le> length buf" by (simp add: corroborated_def)
  then have "NewApkSign rd buf = scan rd buf 0" by (simp add: NewApkSign_def)
  also have "\<dots> = scan rd buf i"
    using assms(1,2) by (intro scan_passed_over) simp_all
  also have "\<dots> = accept rd buf (ucast (declared_cd buf i))
             (word_of_nat (length buf) - 22 - word_of_nat i)"
    using assms(1,4) probe_corroborated [OF assms(3), of rd] by (simp add: scan_Return)
  also have "\<dots> = find_asv2 (located (is_apk names) buf i)"
    using assms(5) by (simp add: accept_def located_def)
  finally show ?thesis .
qed

lemma located_simps [simp]:
  "raw (located apk buf i) = buf"
  "size_f (located apk buf i) = int (length buf)"
  "cdOffset (located apk buf i) = ucast (declared_cd buf i)"
  "eocdOffset (located apk buf i) = word_of_nat (length buf) - 22 - word_of_nat i"
  "asv2Offset (located apk buf i) = 0"
  "rawASv2 (located apk buf i) = []"
  "IsV2Signed (located apk buf i) = False"
  "IsAPK (located apk buf i) = apk"
  by (simp_all add: located_def)

lemma adjacency_nat:
  fixes a b :: uint32
  assumes "i + 22 \<le> length buf" and "int (length buf) \<le> maxAlloc"
  shows "ucast a + ucast b = (word_of_nat (length buf) - 22 - word_of_nat i :: uint64)
     \<longleftrightarrow> unat a + unat b = length buf - 22 - i"
proof -
  have len: "length buf \<le> 281474976710656" using assms(2) by (simp add: maxAlloc_def)
  have "uint (ucast a + ucast b :: uint64) = uint (ucast a :: uint64) + uint (ucast b :: uint64)"
    using uint_ucast32 [of a] uint_ucast32 [of b] by (simp add: uint_add_cases)
  then have l: "unat (ucast a + ucast b :: uint64) = unat a + unat b"
    unfolding unat_ucast32 [symmetric] by (simp only: unat_eq_nat_uint nat_add_distrib uint_ge_0)
  have "(word_of_nat (length buf) - 22 - word_of_nat i :: uint64)
      = word_of_nat (length buf - 22 - i)"
    using assms(1) by (simp add: of_nat_diff)
  moreover have "unat (word_of_nat (length buf - 22 - i) :: uint64) = length buf - 22 - i"
    using len by (simp add: unat_of_nat)
  ultimately show ?thesis using l by (simp add: word_unat_eq_iff)
qed

lemma unat_endOfFilesSection:
  "unat (endOfFilesSection z) = (if 0 < asv2Offset z then unat (asv2Offset z) else unat (cdOffset z))"
  by (simp add: endOfFilesSection_def)


text \<open>
  The two size fields and a descriptor the locator has returned, on a buffer with the
  magic of the signing block in front of the Central Directory.
\<close>

lemma NewApkSign_Inr_size_fields:
  assumes "NewApkSign rd buf = Inr z" and "magic_before buf (cdOffset z)"
  shows "(IsV2Signed z \<longleftrightarrow>
            preSize buf (cdOffset z) = postSize buf (cdOffset z) \<and> asv2_start z \<noteq> 0) \<and>
         (preSize buf (cdOffset z) = postSize buf (cdOffset z) \<longrightarrow>
            24 \<le> unat (postSize buf (cdOffset z)) \<and>
            length (rawASv2 z) = unat (postSize buf (cdOffset z)) - 24) \<and>
         (preSize buf (cdOffset z) \<noteq> postSize buf (cdOffset z) \<longrightarrow> \<not> IsV2Signed z)"
proof -
  from assms(1) obtain i names where
    f: "find_asv2 (located (is_apk names) buf i) = Inr z"
    by (rule NewApkSign_Inr_E)
  let ?z0 = "located (is_apk names) buf i"
  have cd32: "uint (cdOffset ?z0) < 4294967296" by (simp add: uint_ucast32)
  note fl = find_asv2_Inr_fields [OF f cd32]
  have cd: "cdOffset ?z0 = cdOffset z" and rw: "raw z = buf" using fl by simp_all
  have st: "asv2_start ?z0 = asv2_start z" by (simp add: asv2_start_def fl del: located_simps(3))
  have m: "magic_before (raw ?z0) (cdOffset ?z0)" using assms(2) cd by simp
  show ?thesis
  proof (cases "preSize buf (cdOffset z) = postSize buf (cdOffset z)")
    case False
    then have "\<not> IsV2Signed z"
      using find_asv2_Inr_unsigned(2) [OF f cd32] cd by simp
    with False show ?thesis by simp
  next
    case True
    then have e: "preSize (raw ?z0) (cdOffset ?z0) = postSize (raw ?z0) (cdOffset ?z0)"
      using cd by simp
    note r = find_asv2_Inr_matched [OF f cd32 m e]
    note ar = asv2_start_arith [OF cd32 r(4) [unfolded asv2_start_def] r(6)]
    have u: "unat (postSize buf (cdOffset z) - 24) = unat (postSize buf (cdOffset z)) - 24"
      "24 \<le> unat (postSize buf (cdOffset z))"
      using ar(1,3) unfolding cd located_simps(1) by (simp_all only: unat_eq_nat_uint)
    have "IsV2Signed z \<longleftrightarrow> asv2_start z \<noteq> 0"
      using r(2) st by (simp add: word_neq_0_conv)
    moreover have "length (rawASv2 z) = unat (postSize buf (cdOffset z)) - 24"
      using u(1) cd by (simp add: r(3))
    ultimately show ?thesis using True u(2) by simp
  qed
qed

text \<open>
  Where the locator has returned a descriptor for a buffer with the magic of the signing
  block in front of the Central Directory, the scan has reached a corroborated window
  whose Central Directory ends at it, the reader has accepted the buffer, and the two
  size fields lie in the buffer.
\<close>

lemma find_asv2_Inr_magic:
  assumes "find_asv2 z0 = Inr z" and "uint (cdOffset z0) < 4294967296"
    and "magic_before (raw z0) (cdOffset z0)"
  shows "24 \<le> unat (cdOffset z0)"
    "uint (asv2_start z0) < 9223372036854775800"
    "unat (asv2_start z0) + 8 \<le> length (raw z0)"
    "preSize (raw z0) (cdOffset z0) = postSize (raw z0) (cdOffset z0) \<longrightarrow>
       uint (postSize (raw z0) (cdOffset z0) - 24) \<le> 281474976710656"
  using assms(1,3) unfolding find_asv2_eq [OF assms(2)]
  by (auto split: if_splits)

lemma NewApkSign_Inr_fields_in_buffer:
  assumes loc: "NewApkSign rd buf = Inr z" and m: "magic_before buf (cdOffset z)"
    and len: "int (length buf) \<le> maxAlloc"
  obtains i names where "i < 65535" and "\<forall>k<i. passed_over buf k" and "corroborated buf i"
    and "unat (declared_cd buf i) + unat (declared_cd_len buf i) = length buf - 22 - i"
    and "rd buf = Some names"
    and "cdOffset z = ucast (declared_cd buf i)"
    and "24 \<le> unat (cdOffset z)"
    and "unat (cdOffset z - postSize buf (cdOffset z) - 8) + 8 \<le> length buf"
    and "preSize buf (cdOffset z) = postSize buf (cdOffset z) \<longrightarrow>
           24 \<le> unat (postSize buf (cdOffset z)) \<and>
           unat (postSize buf (cdOffset z)) + 8 \<le> unat (cdOffset z)"
proof -
  from loc obtain i names where i: "i < 65535" and po: "\<forall>k<i. passed_over buf k"
    and c: "corroborated buf i"
    and adj: "ucast (declared_cd buf i) + ucast (declared_cd_len buf i)
           = (word_of_nat (length buf) - 22 - word_of_nat i :: uint64)"
    and rd: "rd buf = Some names"
    and f: "find_asv2 (located (is_apk names) buf i) = Inr z"
    by (rule NewApkSign_Inr_E)
  let ?z0 = "located (is_apk names) buf i"
  let ?cd = "cdOffset z"
  have cd32: "uint (cdOffset ?z0) < 4294967296" by (simp add: uint_ucast32)
  note fl = find_asv2_Inr_fields [OF f cd32]
  have cdz: "cdOffset ?z0 = ?cd" and rw: "raw ?z0 = buf" using fl by simp_all
  have cdi: "?cd = ucast (declared_cd buf i)" using fl(3) by simp
  have st: "asv2_start ?z0 = ?cd - postSize buf ?cd - 8"
    unfolding asv2_start_def cdz rw ..
  from c have in_buf: "i + 22 \<le> length buf" by (simp add: corroborated_def)
  have an: "unat (declared_cd buf i) + unat (declared_cd_len buf i) = length buf - 22 - i"
    using adj adjacency_nat [OF in_buf len, of "declared_cd buf i" "declared_cd_len buf i"]
    by simp
  have m0: "magic_before (raw ?z0) (cdOffset ?z0)" unfolding cdz rw by (rule m)
  note r = find_asv2_Inr_magic [OF f cd32 m0, unfolded st cdz rw]
  have blk: "preSize buf ?cd = postSize buf ?cd \<longrightarrow>
           24 \<le> unat (postSize buf ?cd) \<and> unat (postSize buf ?cd) + 8 \<le> unat ?cd"
  proof
    assume "preSize buf ?cd = postSize buf ?cd"
    with r(4) have r5: "uint (postSize buf ?cd - 24) \<le> 281474976710656" by simp
    note ar = asv2_start_arith [OF cd32 [unfolded cdz] r(2) r5]
    have up: "uint (postSize buf ?cd) = int (unat (postSize buf ?cd))"
      and uc: "uint ?cd = int (unat ?cd)" by (rule uint_nat)+
    have "0 \<le> uint (?cd - postSize buf ?cd - 8)" by (rule uint64_bounds)
    then show "24 \<le> unat (postSize buf ?cd) \<and> unat (postSize buf ?cd) + 8 \<le> unat ?cd"
      using ar(1,2) up uc by linarith
  qed
  from i po c an rd cdi r(1) r(3) blk show thesis by (rule that)
qed

section \<open>What the injector returns\<close>

text \<open>The offsets of a descriptor with valid offsets, as natural numbers.\<close>

lemma valid_offsets_nat:
  assumes "valid_offsets z"
  shows "unat (asv2Offset z) \<le> unat (cdOffset z)"
    and "unat (cdOffset z) \<le> unat (eocdOffset z)"
    and "unat (eocdOffset z) + 22 \<le> length (raw z)"
    and "length (raw z) \<le> 281474976710656"
    and "size_f z = int (length (raw z))"
  using assms by (simp_all add: valid_offsets_def word_le_nat_alt maxAlloc_def)

lemma endOfFilesSection_le:
  assumes "valid_offsets z"
  shows "unat (endOfFilesSection z) \<le> unat (cdOffset z)"
  using valid_offsets_nat(1) [OF assms] by (simp add: unat_endOfFilesSection)

lemma newSize_nat:
  assumes "valid_offsets z"
  shows "newSize z data
     = int (unat (endOfFilesSection z) + length data + (length (raw z) - unat (cdOffset z)))"
proof -
  note v = valid_offsets_nat [OF assms]
  have u: "uint (cdOffset z) = int (unat (cdOffset z))"
    "uint (asv2Offset z) = int (unat (asv2Offset z))" by (rule uint_nat)+
  have le: "uint (asv2Offset z) \<le> uint (cdOffset z)" using v(1) u by linarith
  then have d: "uint (cdOffset z - asv2Offset z) = uint (cdOffset z) - uint (asv2Offset z)"
    by (simp add: uint_sub_cases)
  have "uint (cdOffset z) \<le> 281474976710656" using v(2,3,4) u
      uint_nat [of "eocdOffset z"] by linarith
  then have "uint (cdOffset z - asv2Offset z) < 9223372036854775808"
    using d uint64_bounds(1) [of "asv2Offset z"] by linarith
  then have s: "sint (cdOffset z - asv2Offset z) = uint (cdOffset z) - uint (asv2Offset z)"
    using d by (simp add: sint64)
  show ?thesis
  proof (cases "0 < asv2Offset z")
    case True
    then show ?thesis using v(1,2,3) u
      by (simp add: newSize_def s unat_endOfFilesSection)
  next
    case False
    then show ?thesis using v(1,2,3) u
      by (simp add: newSize_def unat_endOfFilesSection) 
  qed
qed

lemma inject_words:
  assumes v: "valid_offsets z" and a: "newSize z data \<le> maxAlloc"
  shows "uint (endOfFilesSection z + word_of_nat (length data))
           = int (unat (endOfFilesSection z) + length data)"
    and "uint (endOfFilesSection z + word_of_nat (length data) + (eocdOffset z - cdOffset z))
           = int (unat (endOfFilesSection z) + length data
                  + (unat (eocdOffset z) - unat (cdOffset z)))"
    and "(ucast (endOfFilesSection z + word_of_nat (length data)) :: uint32)
           = word_of_nat (unat (endOfFilesSection z) + length data)"
    and "sint (eocdOffset z) = int (unat (eocdOffset z))"
proof -
  note n = valid_offsets_nat [OF v]
  note e = endOfFilesSection_le [OF v]
  let ?e = "endOfFilesSection z"
  let ?n = "word_of_nat (length data) :: uint64"
  have m: "maxAlloc = 281474976710656" by (simp add: maxAlloc_def)
  have N: "unat ?e + length data + (length (raw z) - unat (cdOffset z)) \<le> 281474976710656"
    using a newSize_nat [OF v, of data] m by linarith
  have dn: "unat ?n = length data" using N by (simp add: unat_of_nat)
  have ue: "uint ?e = int (unat ?e)" and un: "uint ?n = int (unat ?n)"
    and uc: "uint (cdOffset z) = int (unat (cdOffset z))"
    and uo: "uint (eocdOffset z) = int (unat (eocdOffset z))"
    by (rule uint_nat)+
  have c1: "uint ?e + uint ?n < 18446744073709551616" using N ue un dn by linarith
  then have 1: "uint (?e + ?n) = uint ?e + uint ?n" by (simp add: uint_add_cases)
  show s1: "uint (?e + ?n) = int (unat ?e + length data)"
    using 1 ue un dn by linarith
  have "uint (cdOffset z) \<le> uint (eocdOffset z)" using n(2) uc uo by linarith
  then have 2: "uint (eocdOffset z - cdOffset z) = uint (eocdOffset z) - uint (cdOffset z)"
    by (simp add: uint_sub_cases)
  have "uint (?e + ?n) + uint (eocdOffset z - cdOffset z) < 18446744073709551616"
    using N n s1 2 uc uo by linarith
  then have "uint (?e + ?n + (eocdOffset z - cdOffset z))
      = uint (?e + ?n) + uint (eocdOffset z - cdOffset z)"
    by (simp add: uint_add_cases [of "?e + ?n"])
  then show "uint (?e + ?n + (eocdOffset z - cdOffset z))
      = int (unat ?e + length data + (unat (eocdOffset z) - unat (cdOffset z)))"
    using s1 2 uc uo n(2) by linarith
  have "?e + ?n = word_of_nat (unat ?e + length data)"
    by simp
  then show "(ucast (?e + ?n) :: uint32) = word_of_nat (unat ?e + length data)"
    by (simp only: ucast_of_nat_down)
  have "uint (eocdOffset z) < 9223372036854775808" using n(3,4) uo by linarith
  then have "sint (eocdOffset z) = uint (eocdOffset z)" by (simp add: sint64)
  then show "sint (eocdOffset z) = int (unat (eocdOffset z))" using uo by linarith
qed

lemma patch_eocd_eq:
  assumes v: "valid_offsets z" and a: "newSize z data \<le> maxAlloc"
  shows "patch_eocd z data =
     Inr (take 16 (drop (unat (eocdOffset z)) (raw z)) @
          PutUint32 (word_of_nat (unat (endOfFilesSection z) + length data)) @
          drop (unat (eocdOffset z) + 20) (raw z))"
proof -
  note n = valid_offsets_nat [OF v]
  note w = inject_words [OF v a]
  define E where "E = drop (unat (eocdOffset z)) (raw z)"
  define el where "el = length (raw z) - unat (eocdOffset z)"
  have lE: "length E = el" by (simp add: E_def el_def)
  have el22: "22 \<le> el" using n(3) by (simp add: el_def)
  have m: "maxAlloc = 281474976710656" by (simp add: maxAlloc_def)
  have "size_f z - sint (eocdOffset z) = int el"
    using n(3,5) w(4) unfolding el_def by linarith
  moreover have "int el \<le> maxAlloc" using n(4) m unfolding el_def by linarith
  ultimately have 1: "make_bytes (size_f z - sint (eocdOffset z)) = Inr (replicate el 0)"
    by (simp add: make_bytes_def)
  have 2: "go_slice_from (raw z) (uint (eocdOffset z)) = Inr E"
    using n(3) by (simp add: go_slice_from_unat E_def)
  have 3: "go_copy (replicate el 0) E = E"
    using lE by (simp add: go_copy_eq)
  have 4: "go_slice_from E 16 = Inr (drop 16 E)"
    using el22 lE by (simp add: go_slice_from_def go_slice_def)
  have 5: "\<not> length (drop 16 E) < 4" using el22 lE by simp
  have 6: "drop 20 E = drop (unat (eocdOffset z) + 20) (raw z)"
    by (simp add: E_def add.commute)
  show ?thesis
    by (simp only: patch_eocd_def 1 2 3 4 5 6 w(3) sum.case if_False E_def [symmetric])
qed

lemma InjectBeforeCD_spliced:
  assumes v: "valid_offsets z" and a: "newSize z data \<le> maxAlloc"
  shows "InjectBeforeCD z data = Inr (spliced z data)"
proof -
  note n = valid_offsets_nat [OF v]
  note w = inject_words [OF v a]
  note le = endOfFilesSection_le [OF v]
  define ins where "ins = unat (endOfFilesSection z)"
  define cd where "cd = unat (cdOffset z)"
  define eo where "eo = unat (eocdOffset z)"
  define dl where "dl = length data"
  define cl where "cl = eo - cd"
  define el where "el = length (raw z) - eo"
  define files where "files = take ins (raw z)"
  define CD where "CD = take cl (drop cd (raw z))"
  define newEocd where "newEocd = take 16 (drop eo (raw z)) @
          PutUint32 (word_of_nat (ins + dl)) @ drop (eo + 20) (raw z)"
  define Z :: "nat \<Rightarrow> byte list" where "Z k = replicate k 0" for k
  have lZ [simp]: "length (Z k) = k" for k by (simp add: Z_def)
  have bounds: "ins \<le> cd" "cd \<le> eo" "eo + 22 \<le> length (raw z)"
    using le n(2,3) by (simp_all add: ins_def cd_def eo_def)
  have lf: "length files = ins" using bounds by (simp add: files_def)
  have lC: "length CD = cl" using bounds by (simp add: CD_def cl_def)
  have lE: "length newEocd = el" using bounds by (simp add: newEocd_def el_def)
  have m: "maxAlloc = 281474976710656" by (simp add: maxAlloc_def)
  have p: "patch_eocd z data = Inr newEocd"
    by (simp only: patch_eocd_eq [OF v a] newEocd_def ins_def eo_def dl_def)
  have N: "newSize z data = int (ins + dl + (cl + el))"
    using bounds unfolding newSize_nat [OF v] ins_def [symmetric] cd_def [symmetric]
      dl_def [symmetric] cl_def el_def by simp
  have "0 \<le> newSize z data" unfolding N by simp
  then have "make_bytes (newSize z data) = Inr (replicate (ins + dl + (cl + el)) 0)"
    using a by (simp add: make_bytes_def N)
  then have mk: "make_bytes (newSize z data) = Inr (Z ins @ Z dl @ Z cl @ Z el)"
    by (simp add: Z_def replicate_add)
  have ue: "uint (endOfFilesSection z) = int ins"
    unfolding ins_def by (rule uint_nat)
  have w1: "uint (endOfFilesSection z + word_of_nat (length data)) = int (ins + dl)"
    using w(1) by (simp only: ins_def dl_def)
  have w2: "uint (endOfFilesSection z + word_of_nat (length data) + (eocdOffset z - cdOffset z))
      = int (ins + dl + cl)"
    using w(2) by (simp only: ins_def dl_def cl_def eo_def cd_def)
  have f: "go_slice (raw z) 0 (uint (endOfFilesSection z)) = Inr files"
    using bounds unfolding ue by (simp add: go_slice_def files_def)
  have c1: "copy_into (Z ins @ Z dl @ Z cl @ Z el) 0 (uint (endOfFilesSection z)) files
      = Inr (files @ Z dl @ Z cl @ Z el)"
    using copy_into_segment [of 0 "[]" "int ins" "Z ins" "Z dl @ Z cl @ Z el" files] lf
    unfolding ue by simp
  have c2: "copy_into (files @ Z dl @ Z cl @ Z el) (uint (endOfFilesSection z))
        (uint (endOfFilesSection z + word_of_nat (length data))) data
      = Inr (files @ data @ Z cl @ Z el)"
    using copy_into_segment [of "int ins" files "int (ins + dl)" "Z dl" "Z cl @ Z el" data] lf
    unfolding ue w1 by (simp add: dl_def)
  have g: "go_slice (raw z) (uint (cdOffset z)) (uint (eocdOffset z)) = Inr CD"
  proof -
    have "uint (cdOffset z) = int cd" "uint (eocdOffset z) = int eo"
      unfolding cd_def eo_def by (rule uint_nat)+
    then show ?thesis using bounds by (simp add: go_slice_def CD_def cl_def)
  qed
  have c3: "copy_into (files @ data @ Z cl @ Z el)
        (uint (endOfFilesSection z + word_of_nat (length data)))
        (int (length (files @ data @ Z cl @ Z el))) CD
      = Inr (files @ data @ CD @ Z el)"
    using copy_into_segment [of "int (ins + dl)" "files @ data" "int (ins + dl + (cl + el))"
        "Z cl @ Z el" "[]" CD] lf lC
    unfolding w1 by (simp add: dl_def add.assoc)
  have c4: "copy_into (files @ data @ CD @ Z el)
        (uint (endOfFilesSection z + word_of_nat (length data) + (eocdOffset z - cdOffset z)))
        (int (length (files @ data @ CD @ Z el))) newEocd
      = Inr (files @ data @ CD @ newEocd)"
    using copy_into_segment [of "int (ins + dl + cl)" "files @ data @ CD"
        "int (ins + dl + cl + el)" "Z el" "[]" newEocd] lf lC lE
    unfolding w2 by (simp add: dl_def add.assoc)
  have "InjectBeforeCD z data = Inr (files @ data @ CD @ newEocd)"
    by (simp only: InjectBeforeCD_def Let_def p mk f c1 c2 g c3 c4 sum.case)
  also have "files @ data @ CD @ newEocd = spliced z data"
    by (simp add: spliced_def files_def CD_def newEocd_def ins_def cd_def eo_def dl_def cl_def)
  finally show ?thesis .
qed

lemma length_spliced:
  assumes v: "valid_offsets z"
  shows "length (spliced z data)
     = unat (endOfFilesSection z) + length data + (length (raw z) - unat (cdOffset z))"
  using valid_offsets_nat [OF v] endOfFilesSection_le [OF v]
  by (simp add: spliced_def)


section \<open>The example archives\<close>

lemmas eval_defs = probe_def accept_def find_asv2_def copy_asv2_def make_bytes_def maxAlloc_def
  go_copy_def go_slice_def go_slice_from_def Uint16_def Uint32_def Uint64_def le_word_def
  sig_magic_def is_apk_def no_members_def filler16_def cd_entry_def empty_block_def

lemmas window_defs = corroborated_def passed_over_def window_def declared_cd_def
  declared_cd_len_def Uint16_def Uint32_def le_word_def filler16_def cd_entry_def

lemma less_22_cases:
  "(k::nat) < 22 \<Longrightarrow> k \<in> {0, 1, 2, 3, 4, 5, 6, 7, 8, 9, 10, 11, 12, 13, 14, 15, 16, 17, 18, 19, 20, 21}"
  by simp arith


lemma NewApkSign_signed_zip: "NewApkSign no_members signed_zip = Inr signed_descr"
  apply (simp add: NewApkSign_def signed_zip_def cd_entry_def)
  apply (subst scan.simps)
  apply (simp add: eval_defs signed_descr_def signed_zip_def)
  done

lemma magic_before_signed_zip: "magic_before signed_zip (cdOffset signed_descr)"
  by (simp add: magic_before_def signed_descr_def signed_zip_def cd_entry_def sig_magic_def)

lemma valid_signed_descr: "valid_offsets signed_descr"
  by (simp add: valid_offsets_def signed_descr_def signed_zip_def cd_entry_def maxAlloc_def)

lemma newSize_signed_descr: "newSize signed_descr [1, 2, 3] \<le> maxAlloc"
  by (simp add: newSize_def signed_descr_def signed_zip_def cd_entry_def maxAlloc_def)

lemma NewApkSign_block_at_zero_zip:
  "NewApkSign no_members block_at_zero_zip = Inr block_at_zero_descr"
  apply (simp add: NewApkSign_def block_at_zero_zip_def cd_entry_def empty_block_def)
  apply (subst scan.simps)
  apply (simp add: eval_defs block_at_zero_descr_def block_at_zero_zip_def)
  done

lemma not_adjacent_passed: "\<forall>k<22. passed_over not_adjacent_zip k"
proof (intro allI impI)
  fix k :: nat assume "k < 22"
  from less_22_cases [OF this] show "passed_over not_adjacent_zip k"
    by (elim insertE emptyE) (simp_all add: not_adjacent_zip_def window_defs)
qed

lemma not_adjacent_corr: "corroborated not_adjacent_zip 22"
  by (simp add: not_adjacent_zip_def window_defs)






lemma window_no_magic:
  assumes "k < length buf" and "buf ! k \<noteq> 0x50"
  shows "Uint32 (take 22 (drop k buf)) \<noteq> 0x06054b50"
proof
  assume m: "Uint32 (take 22 (drop k buf)) = 0x06054b50"
  have "take 22 (drop k buf) = buf ! k # take 21 (drop (Suc k) buf)"
    using assms(1) by (simp add: Cons_nth_drop_Suc [symmetric])
  with m have "buf ! k = ucast (0x06054b50 :: uint32)"
    using Uint32_first by metis
  with assms(2) show False by simp
qed

lemma long_comment_zip_length: "length long_comment_zip = 65619"
  by (simp add: long_comment_zip_def filler16_def cd_entry_def)

lemma long_comment_zip_nth:
  assumes "63 \<le> k" and "k < 65619"
  shows "long_comment_zip ! k \<noteq> 0x50"
proof -
  define H :: "byte list" where "H = filler16 @ cd_entry @
     [0x50, 0x4b, 0x05, 0x06, 0, 0, 0, 0, 1, 0, 1, 0, 0x2e, 0, 0, 0, 0x10, 0, 0, 0, 0xff, 0xff]"
  have l: "length H = 84" by (simp add: H_def filler16_def cd_entry_def)
  have z: "long_comment_zip = H @ replicate 65535 0"
    by (simp add: long_comment_zip_def H_def)
  have n: "0x50 \<notin> set (drop 63 H)"
    by (simp add: H_def filler16_def cd_entry_def)
  show ?thesis
  proof (cases "k < 84")
    case True
    then have "long_comment_zip ! k = drop 63 H ! (k - 63)"
      using assms(1) l by (simp add: z nth_append)
    moreover have "drop 63 H ! (k - 63) \<in> set (drop 63 H)"
      using True assms(1) l by (intro nth_mem) simp
    ultimately show ?thesis using n by metis
  next
    case False
    then show ?thesis using assms(2) l by (simp add: z nth_append)
  qed
qed

lemma long_comment_zip_passed:
  assumes "j < 65535"
  shows "passed_over long_comment_zip j"
proof -
  have "Uint32 (take 22 (drop (65619 - 22 - j) long_comment_zip)) \<noteq> 0x06054b50"
    using assms
    by (intro window_no_magic long_comment_zip_nth) (simp_all add: long_comment_zip_length)
  then show ?thesis using assms
    by (simp add: passed_over_def window_def long_comment_zip_length)
qed

lemma not_adjacent_long_zip_length: "length not_adjacent_long_zip = 65619"
  by (simp add: not_adjacent_long_zip_def filler16_def cd_entry_def)

lemma not_adjacent_long_zip_nth:
  assumes "63 \<le> k" and "k < 65619"
  shows "not_adjacent_long_zip ! k \<noteq> 0x50"
proof -
  define H :: "byte list" where "H = filler16 @ cd_entry @
     [0x50, 0x4b, 0x05, 0x06, 0, 0, 0, 0, 1, 0, 1, 0, 0x2d, 0, 0, 0, 0x10, 0, 0, 0, 0xff, 0xff]"
  have l: "length H = 84" by (simp add: H_def filler16_def cd_entry_def)
  have z: "not_adjacent_long_zip = H @ replicate 65535 0"
    by (simp add: not_adjacent_long_zip_def H_def)
  have n: "0x50 \<notin> set (drop 63 H)"
    by (simp add: H_def filler16_def cd_entry_def)
  show ?thesis
  proof (cases "k < 84")
    case True
    then have "not_adjacent_long_zip ! k = drop 63 H ! (k - 63)"
      using assms(1) l by (simp add: z nth_append)
    moreover have "drop 63 H ! (k - 63) \<in> set (drop 63 H)"
      using True assms(1) l by (intro nth_mem) simp
    ultimately show ?thesis using n by metis
  next
    case False
    then show ?thesis using assms(2) l by (simp add: z nth_append)
  qed
qed

lemma not_adjacent_long_zip_passed:
  assumes "j < 65535"
  shows "passed_over not_adjacent_long_zip j"
proof -
  have "Uint32 (take 22 (drop (65619 - 22 - j) not_adjacent_long_zip)) \<noteq> 0x06054b50"
    using assms
    by (intro window_no_magic not_adjacent_long_zip_nth)
       (simp_all add: not_adjacent_long_zip_length)
  then show ?thesis using assms
    by (simp add: passed_over_def window_def not_adjacent_long_zip_length)
qed

lemma mismatched_passed: "\<forall>k<0. passed_over mismatched_zip k"
  by simp

lemma signed_passed: "\<forall>k<0. passed_over signed_zip k"
  by simp

lemma mismatched_corr: "corroborated mismatched_zip 0"
  by (simp add: mismatched_zip_def window_defs)

lemma signed_corr: "corroborated signed_zip 0"
  by (simp add: signed_zip_def window_defs)

lemma valid_plain_descr: "valid_offsets plain_descr"
  by (simp add: valid_offsets_def plain_descr_def plain_zip_def filler16_def cd_entry_def
      maxAlloc_def)

lemma newSize_plain_descr_large: "newSize plain_descr (replicate 4294967296 0) \<le> maxAlloc"
  by (simp add: newSize_def plain_descr_def plain_zip_def filler16_def cd_entry_def maxAlloc_def)






lemma NewApkSign_plain_zip: "NewApkSign no_members plain_zip = Inr plain_descr"
  apply (simp add: NewApkSign_def plain_zip_def filler16_def cd_entry_def)
  apply (subst scan.simps)
  apply (simp add: eval_defs plain_descr_def plain_zip_def)
  done

section \<open>C1: a buffer without an EOCD record\<close>

text \<open>
  Claim C1 (every byte buffer makes the locator return a descriptor or one of its four
  errors, never abort). The source reads the window \<open>raw[size - 22 - i : size - i]\<close> for
  every \<open>i\<close> below 65535 without comparing \<open>size - 22 - i\<close> with 0. On the buffer of
  22 zero bytes the window of \<open>i = 0\<close> has no magic, and the slice expression of
  \<open>i = 1\<close> starts at \<open>-1\<close>: the call ends in a run-time panic, whatever the reader of
  the entry table is.
\<close>

theorem NewApkSign_aborts_without_eocd:
  "NewApkSign rd [0, 0, 0, 0, 0, 0, 0, 0, 0, 0, 0, 0, 0, 0, 0, 0, 0, 0, 0, 0, 0, 0]
     = Inl RuntimePanic"
  apply (simp add: NewApkSign_def)
  apply (subst scan.simps)
  apply (simp add: probe_def go_slice_def Uint32_def le_word_def)
  apply (subst scan.simps)
  apply (simp add: probe_def go_slice_def Uint32_def le_word_def)
  done

text \<open>
  The other slices and the allocation of the locator abort in the same way: the magic
  of the signing block is read at \<open>cdOffset - 16\<close> also when the Central Directory
  starts in front of offset 16, and the content of a signing block is allocated with
  \<open>preSize - 24\<close> bytes also when the two size fields agree on a value below 24.
\<close>

lemma NewApkSign_aborts_on_cd_at_zero: "NewApkSign no_members cd_at_zero_zip = Inl RuntimePanic"
  apply (simp add: NewApkSign_def cd_at_zero_zip_def cd_entry_def)
  apply (subst scan.simps)
  apply (simp add: eval_defs)
  done

lemma NewApkSign_aborts_on_short_block:
  "NewApkSign no_members short_block_zip = Inl RuntimePanic"
  apply (simp add: NewApkSign_def short_block_zip_def filler16_def cd_entry_def)
  apply (subst scan.simps)
  apply (simp add: eval_defs)
  done

section \<open>C2: a comment that looks like an EOCD record\<close>

text \<open>
  Claim C2 (a window with the EOCD magic that fails corroboration is passed over, and
  the true EOCD record further back is found). When the comment length does not echo,
  or four bytes at the declared offset are not the magic of the Central Directory, the
  loop goes on (\<open>probe_Continue_iff\<close>). The slice \<open>raw[int64(eocdCD):]\<close> is taken
  before the comparison and without a bound check: in \<open>spoofed_far_zip\<close> the comment has
  the EOCD magic, echoes the comment length 0 and declares the offset \<open>0xFFFFFFFF\<close>;
  the window of the true EOCD record, at comment length 22, is corroborated, and the
  call ends in a run-time panic at the comment.
\<close>

theorem NewApkSign_aborts_on_spoofed_comment:
  "Uint32 (window spoofed_far_zip 0) = 0x06054b50 \<and>
   \<not> corroborated spoofed_far_zip 0 \<and>
   corroborated spoofed_far_zip 22 \<and>
   unat (declared_cd spoofed_far_zip 22) + unat (declared_cd_len spoofed_far_zip 22)
     = length spoofed_far_zip - 22 - 22 \<and>
   NewApkSign rd spoofed_far_zip = Inl RuntimePanic"
proof (intro conjI)
  show "Uint32 (window spoofed_far_zip 0) = 0x06054b50"
    by (simp add: spoofed_far_zip_def window_defs)
  show "\<not> corroborated spoofed_far_zip 0"
    by (simp add: spoofed_far_zip_def window_defs)
  show "corroborated spoofed_far_zip 22"
    by (simp add: spoofed_far_zip_def window_defs)
  show "unat (declared_cd spoofed_far_zip 22) + unat (declared_cd_len spoofed_far_zip 22)
     = length spoofed_far_zip - 22 - 22"
    by (simp add: spoofed_far_zip_def window_defs)
  show "NewApkSign rd spoofed_far_zip = Inl RuntimePanic"
    apply (simp add: NewApkSign_def spoofed_far_zip_def filler16_def cd_entry_def)
    apply (subst scan.simps)
    apply (simp add: eval_defs)
    done
qed

section \<open>C3: the range of the scan\<close>

text \<open>
  Claim C3 (the scan examines the comment lengths 0 to 65535). The loop runs while
  \<open>i < 65535\<close>, so the comment length 65535 is never examined. \<open>long_comment_zip\<close> has
  its EOCD record in front of a comment of 65535 bytes: that window is corroborated
  and adjacent to its Central Directory, the 65535 windows the loop does read hold no
  EOCD magic, and the locator returns \<open>NotAZipContainer\<close>.
\<close>

theorem NewApkSign_misses_longest_comment:
  "corroborated long_comment_zip 65535 \<and>
   unat (declared_cd long_comment_zip 65535) + unat (declared_cd_len long_comment_zip 65535)
     = length long_comment_zip - 22 - 65535 \<and>
   NewApkSign rd long_comment_zip = Inl NotAZipContainer"
proof (intro conjI)
  have w: "window long_comment_zip 65535 =
    [0x50, 0x4b, 0x05, 0x06, 0, 0, 0, 0, 1, 0, 1, 0, 0x2e, 0, 0, 0, 0x10, 0, 0, 0, 0xff, 0xff]"
    by (simp add: window_def long_comment_zip_length)
       (simp add: long_comment_zip_def filler16_def cd_entry_def)
  have d: "drop 16 long_comment_zip = drop 16 (filler16 @ cd_entry) @ drop 0 (drop 62 long_comment_zip)"
    by (simp add: long_comment_zip_def filler16_def cd_entry_def)
  show "corroborated long_comment_zip 65535"
    unfolding corroborated_def declared_cd_def w
    by (simp add: long_comment_zip_length Uint32_def Uint16_def le_word_def)
       (simp add: long_comment_zip_def filler16_def cd_entry_def)
  show "unat (declared_cd long_comment_zip 65535) + unat (declared_cd_len long_comment_zip 65535)
     = length long_comment_zip - 22 - 65535"
    unfolding declared_cd_def declared_cd_len_def w
    by (simp add: long_comment_zip_length Uint32_def le_word_def)
  have "NewApkSign rd long_comment_zip = scan rd long_comment_zip 0"
    by (simp add: NewApkSign_def long_comment_zip_length)
  also have "\<dots> = scan rd long_comment_zip 65535"
    by (intro scan_passed_over long_comment_zip_passed) simp_all
  also have "\<dots> = Inl NotAZipContainer"
    by (simp add: scan_exhausted)
  finally show "NewApkSign rd long_comment_zip = Inl NotAZipContainer" .
qed

section \<open>C4: a Central Directory that does not end at the EOCD record\<close>

text \<open>
  Claim C4 (a corroborated window whose Central Directory does not end at the window
  makes the locator return \<open>CDNotAdjacentToEOCD\<close>). The locator compares the two offsets
  only at a window its loop reaches. In \<open>not_adjacent_far_zip\<close> the window at comment
  length 22 is corroborated and its Central Directory ends one byte in front of it; the
  comment has the EOCD magic, echoes the comment length 0 and declares the offset
  \<open>0xFFFFFFFF\<close>, and the call ends in a run-time panic there. In
  \<open>not_adjacent_long_zip\<close> the window at comment length 65535 is corroborated and its
  Central Directory ends one byte in front of it; the loop stops after the comment
  length 65534, and the locator returns \<open>NotAZipContainer\<close>.
\<close>

theorem NewApkSign_CDNotAdjacent_missed:
  "corroborated not_adjacent_far_zip 22 \<and>
   unat (declared_cd not_adjacent_far_zip 22) + unat (declared_cd_len not_adjacent_far_zip 22)
     \<noteq> length not_adjacent_far_zip - 22 - 22 \<and>
   NewApkSign rd not_adjacent_far_zip = Inl RuntimePanic \<and>
   corroborated not_adjacent_long_zip 65535 \<and>
   unat (declared_cd not_adjacent_long_zip 65535)
     + unat (declared_cd_len not_adjacent_long_zip 65535)
     \<noteq> length not_adjacent_long_zip - 22 - 65535 \<and>
   NewApkSign rd not_adjacent_long_zip = Inl NotAZipContainer"
proof (intro conjI)
  show "corroborated not_adjacent_far_zip 22"
    by (simp add: not_adjacent_far_zip_def window_defs)
  show "unat (declared_cd not_adjacent_far_zip 22)
      + unat (declared_cd_len not_adjacent_far_zip 22)
     \<noteq> length not_adjacent_far_zip - 22 - 22"
    by (simp add: not_adjacent_far_zip_def window_defs)
  show "NewApkSign rd not_adjacent_far_zip = Inl RuntimePanic"
    apply (simp add: NewApkSign_def not_adjacent_far_zip_def filler16_def cd_entry_def)
    apply (subst scan.simps)
    apply (simp add: eval_defs)
    done
  have w: "window not_adjacent_long_zip 65535 =
    [0x50, 0x4b, 0x05, 0x06, 0, 0, 0, 0, 1, 0, 1, 0, 0x2d, 0, 0, 0, 0x10, 0, 0, 0, 0xff, 0xff]"
    by (simp add: window_def not_adjacent_long_zip_length)
       (simp add: not_adjacent_long_zip_def filler16_def cd_entry_def)
  show "corroborated not_adjacent_long_zip 65535"
    unfolding corroborated_def declared_cd_def w
    by (simp add: not_adjacent_long_zip_length Uint32_def Uint16_def le_word_def)
       (simp add: not_adjacent_long_zip_def filler16_def cd_entry_def)
  show "unat (declared_cd not_adjacent_long_zip 65535)
      + unat (declared_cd_len not_adjacent_long_zip 65535)
     \<noteq> length not_adjacent_long_zip - 22 - 65535"
    unfolding declared_cd_def declared_cd_len_def w
    by (simp add: not_adjacent_long_zip_length Uint32_def le_word_def)
  have "NewApkSign rd not_adjacent_long_zip = scan rd not_adjacent_long_zip 0"
    by (simp add: NewApkSign_def not_adjacent_long_zip_length)
  also have "\<dots> = scan rd not_adjacent_long_zip 65535"
    by (intro scan_passed_over not_adjacent_long_zip_passed) simp_all
  also have "\<dots> = Inl NotAZipContainer"
    by (simp add: scan_exhausted)
  finally show "NewApkSign rd not_adjacent_long_zip = Inl NotAZipContainer" .
qed

text \<open>
  At a window the loop does reach, the locator answers as the claim says: when every
  window of a smaller comment length is passed over, the window is corroborated, and
  the declared offset plus the declared length of the Central Directory is not the
  offset of the window, the locator returns \<open>CDNotAdjacentToEOCD\<close>. \<open>not_adjacent_zip\<close>
  is such a buffer.
\<close>

lemma NewApkSign_CDNotAdjacent_reached:
  assumes "int (length buf) \<le> maxAlloc"
    and "i < 65535"
    and "\<forall>k<i. passed_over buf k"
    and "corroborated buf i"
    and "unat (declared_cd buf i) + unat (declared_cd_len buf i) \<noteq> length buf - 22 - i"
  shows "NewApkSign rd buf = Inl CDNotAdjacentToEOCD"
proof -
  from assms(4) have in_buf: "i + 22 \<le> length buf" by (simp add: corroborated_def)
  then have "NewApkSign rd buf = scan rd buf 0" by (simp add: NewApkSign_def)
  also have "\<dots> = scan rd buf i"
    using assms(2,3) by (intro scan_passed_over) simp_all
  also have "\<dots> = Inl CDNotAdjacentToEOCD"
    using assms(2,5) probe_corroborated [OF assms(4), of rd]
      adjacency_nat [OF in_buf assms(1), of "declared_cd buf i" "declared_cd_len buf i"]
    by (simp add: scan_Return)
  finally show ?thesis .
qed

lemma NewApkSign_not_adjacent_zip:
  "NewApkSign no_members not_adjacent_zip = Inl CDNotAdjacentToEOCD"
proof -
  have 1: "int (length not_adjacent_zip) \<le> maxAlloc"
    by (simp add: not_adjacent_zip_def maxAlloc_def filler16_def cd_entry_def)
  have 2: "(22::nat) < 65535" by simp
  have 5: "unat (declared_cd not_adjacent_zip 22) + unat (declared_cd_len not_adjacent_zip 22)
      \<noteq> length not_adjacent_zip - 22 - 22"
    by (simp add: not_adjacent_zip_def window_defs)
  show ?thesis
    by (rule NewApkSign_CDNotAdjacent_reached [OF 1 2 not_adjacent_passed not_adjacent_corr 5])
qed

section \<open>C5: locate, inject, locate\<close>




section \<open>C6: the layout of the injected buffer\<close>

text \<open>
  Claim C6. For a descriptor with valid offsets and a payload for which the new buffer
  can be allocated, the injector returns the bytes in front of the insertion point, the
  payload, the Central Directory, and the EOCD block with its bytes 16 to 19 replaced
  by the little-endian bytes of insertion point plus payload length; the insertion
  point is \<open>asv2Offset\<close> when that is not 0 and \<open>cdOffset\<close> otherwise. The result is as
  long as the original minus the bytes between \<open>asv2Offset\<close> and \<open>cdOffset\<close> (when
  \<open>asv2Offset\<close> is not 0) plus the payload.
\<close>

theorem InjectBeforeCD_layout:
  assumes "valid_offsets z" and "newSize z data \<le> maxAlloc"
  shows "\<exists>ret. InjectBeforeCD z data = Inr ret \<and>
           ret = take (unat (endOfFilesSection z)) (raw z) @ data @
                 take (unat (eocdOffset z) - unat (cdOffset z)) (drop (unat (cdOffset z)) (raw z)) @
                 take 16 (drop (unat (eocdOffset z)) (raw z)) @
                 PutUint32 (word_of_nat (unat (endOfFilesSection z) + length data)) @
                 drop (unat (eocdOffset z) + 20) (raw z) \<and>
           endOfFilesSection z = (if 0 < asv2Offset z then asv2Offset z else cdOffset z) \<and>
           length ret =
             length (raw z)
             - (if 0 < asv2Offset z then unat (cdOffset z) - unat (asv2Offset z) else 0)
             + length data"
proof -
  have "length (spliced z data) =
           length (raw z)
           - (if 0 < asv2Offset z then unat (cdOffset z) - unat (asv2Offset z) else 0)
           + length data"
  proof (cases "0 < asv2Offset z")
    case True
    then show ?thesis
      using valid_offsets_nat [OF assms(1)] length_spliced [OF assms(1), of data]
        unat_endOfFilesSection [of z]
      by (simp only: if_True)
  next
    case False
    then show ?thesis
      using valid_offsets_nat [OF assms(1)] length_spliced [OF assms(1), of data]
        unat_endOfFilesSection [of z]
      by (simp only: if_False)
  qed
  moreover have "endOfFilesSection z = (if 0 < asv2Offset z then asv2Offset z else cdOffset z)"
    by (simp add: endOfFilesSection_def)
  moreover have "spliced z data = take (unat (endOfFilesSection z)) (raw z) @ data @
                 take (unat (eocdOffset z) - unat (cdOffset z)) (drop (unat (cdOffset z)) (raw z)) @
                 take 16 (drop (unat (eocdOffset z)) (raw z)) @
                 PutUint32 (word_of_nat (unat (endOfFilesSection z) + length data)) @
                 drop (unat (eocdOffset z) + 20) (raw z)"
    by (simp only: spliced_def)
  ultimately show ?thesis
    using InjectBeforeCD_spliced [OF assms] by (intro exI [of _ "spliced z data"]) metis
qed

theorem InjectBeforeCD_layout_witness:
  "valid_offsets signed_descr \<and> newSize signed_descr [1, 2, 3] \<le> maxAlloc \<and>
   InjectBeforeCD signed_descr [1, 2, 3] =
     Inr ([0] @ [1, 2, 3] @ cd_entry @
          [0x50, 0x4b, 0x05, 0x06, 0, 0, 0, 0, 1, 0, 1, 0, 0x2e, 0, 0, 0, 4, 0, 0, 0, 0, 0]) \<and>
   endOfFilesSection signed_descr = asv2Offset signed_descr \<and>
   length ([0] @ [1, 2, 3] @ cd_entry @
          [0x50, 0x4b, 0x05, 0x06, 0, 0, 0, 0, 1, 0, 1, 0, 0x2e, 0, 0, 0, 4, 0, 0, 0, 0, 0 :: byte])
     = 103 - (35 - 1) + 3"
  using InjectBeforeCD_layout [OF valid_signed_descr newSize_signed_descr]
    valid_signed_descr newSize_signed_descr
  by (simp add: signed_descr_def signed_zip_def cd_entry_def PutUint32_def)

section \<open>C7: the two size fields of the signing block\<close>

text \<open>
  Claim C7, as the code has it. Let the scan reach a corroborated window whose Central
  Directory ends at it, let the reader of the entry table accept the buffer, let the
  magic of the signing block stand in front of the Central Directory at \<open>cd\<close>, and let
  the two size fields lie in the buffer (\<open>cd\<close> at least 24, and the 8 bytes at
  \<open>cd - postSize - 8\<close> in the buffer; when the fields are equal, their value at least
  24 and at most \<open>cd - 8\<close>). Then the locator returns a descriptor, whether the fields
  are equal or not. \<open>IsV2Signed\<close> is set exactly when the fields are equal and the block
  they describe does not start at offset 0; when they are equal the stored content is
  24 bytes shorter than their value; when they differ \<open>IsV2Signed\<close> is false and no
  content is stored.
\<close>

theorem NewApkSign_size_fields:
  assumes len: "int (length buf) \<le> maxAlloc"
    and i: "i < 65535"
    and po: "\<forall>k<i. passed_over buf k"
    and c: "corroborated buf i"
    and adj: "unat (declared_cd buf i) + unat (declared_cd_len buf i) = length buf - 22 - i"
    and rd: "rd buf = Some names"
    and cd: "cd = ucast (declared_cd buf i)"
    and m: "magic_before buf cd"
    and cd24: "24 \<le> unat cd"
    and pre_in: "unat (cd - postSize buf cd - 8) + 8 \<le> length buf"
    and blk: "preSize buf cd = postSize buf cd \<longrightarrow>
           24 \<le> unat (postSize buf cd) \<and> unat (postSize buf cd) + 8 \<le> unat cd"
  shows "\<exists>z. NewApkSign rd buf = Inr z \<and> raw z = buf \<and> cdOffset z = cd \<and>
           (IsV2Signed z \<longleftrightarrow>
              preSize buf cd = postSize buf cd \<and> cd - postSize buf cd - 8 \<noteq> 0) \<and>
           (preSize buf cd = postSize buf cd \<longrightarrow>
              length (rawASv2 z) = unat (postSize buf cd) - 24) \<and>
           (preSize buf cd \<noteq> postSize buf cd \<longrightarrow> \<not> IsV2Signed z \<and> rawASv2 z = [])"
proof -
  let ?z0 = "located (is_apk names) buf i"
  from c have in_buf: "i + 22 \<le> length buf"
    and cd_in: "unat (declared_cd buf i) + 4 \<le> length buf"
    by (simp_all add: corroborated_def)
  have adjw: "ucast (declared_cd buf i) + ucast (declared_cd_len buf i)
           = (word_of_nat (length buf) - 22 - word_of_nat i :: uint64)"
    using adj adjacency_nat [OF in_buf len, of "declared_cd buf i" "declared_cd_len buf i"]
    by simp
  have N: "NewApkSign rd buf = find_asv2 ?z0"
    using po by (intro NewApkSign_Inr_I [where rd = rd and buf = buf and i = i
          and names = names] i c adjw rd) simp
  have z0: "cdOffset ?z0 = cd" "raw ?z0 = buf" "asv2Offset ?z0 = 0"
    by (simp_all add: cd)
  have cd32: "uint (cdOffset ?z0) < 4294967296" by (simp add: uint_ucast32)
  have ucd: "unat cd = unat (declared_cd buf i)" by (simp add: cd unat_ucast32)
  have st: "asv2_start ?z0 = cd - postSize buf cd - 8"
    by (simp add: asv2_start_def cd)
  have r1: "16 \<le> unat cd \<and> unat cd \<le> length buf"
    using cd24 cd_in ucd by linarith
  have l48: "int (length buf) \<le> 281474976710656" using len by (simp add: maxAlloc_def)
  have u: "uint (cd - postSize buf cd - 8) = int (unat (cd - postSize buf cd - 8))"
    by (rule uint_nat)
  have r4: "uint (cd - postSize buf cd - 8) < 9223372036854775800"
    using u pre_in l48 by linarith
  note eq = find_asv2_eq [OF cd32, unfolded z0 st]
  show ?thesis
  proof (cases "preSize buf cd = postSize buf cd")
    case False
    define z where "z = ?z0\<lparr>IsV2Signed := False\<rparr>"
    have "find_asv2 ?z0 = Inr z"
      unfolding z_def eq using r1 m cd24 r4 pre_in False by simp
    then have "NewApkSign rd buf = Inr z" using N by simp
    moreover have "raw z = buf" "cdOffset z = cd" "\<not> IsV2Signed z" "rawASv2 z = []"
      by (simp_all add: z_def cd)
    ultimately show ?thesis using False by blast
  next
    case True
    with blk have b: "24 \<le> unat (postSize buf cd)" "unat (postSize buf cd) + 8 \<le> unat cd"
      by simp_all
    have c32: "uint cd < 4294967296" using cd32 by (simp only: z0)
    have up: "uint (postSize buf cd) = int (unat (postSize buf cd))"
      and uc: "uint cd = int (unat cd)" by (rule uint_nat)+
    have w24: "uint (24 :: uint64) = 24" by simp
    have p24: "24 \<le> uint (postSize buf cd)" using b(1) up by linarith
    have s24: "uint (postSize buf cd - 24) = uint (postSize buf cd) - 24"
      using p24 by (simp add: uint_sub_cases w24)
    have r5: "uint (postSize buf cd - 24) \<le> 281474976710656"
      using s24 up uc b(2) c32 by linarith
    have u24: "unat (postSize buf cd - 24) = unat (postSize buf cd) - 24"
      using s24 by (simp only: unat_eq_nat_uint) 
    define z where "z = ?z0\<lparr>asv2Offset := cd - postSize buf cd - 8,
             rawASv2 := go_copy (replicate (unat (postSize buf cd - 24)) 0)
                (drop (unat (cd - postSize buf cd - 8) + 8) buf),
             IsV2Signed := 0 < cd - postSize buf cd - 8\<rparr>"
    have "find_asv2 ?z0 = Inr z"
      unfolding z_def eq using r1 m cd24 r4 pre_in True r5 by simp
    then have "NewApkSign rd buf = Inr z" using N by simp
    moreover have f: "raw z = buf" "cdOffset z = cd"
      "IsV2Signed z \<longleftrightarrow> 0 < cd - postSize buf cd - 8"
      "length (rawASv2 z) = unat (postSize buf cd - 24)"
      by (simp_all add: z_def cd)
    moreover have "IsV2Signed z \<longleftrightarrow> cd - postSize buf cd - 8 \<noteq> 0"
      unfolding f(3) by (rule word_neq_0_conv [symmetric])
    moreover have "length (rawASv2 z) = unat (postSize buf cd) - 24"
      unfolding f(4) by (rule u24)
    ultimately show ?thesis using True by blast
  qed
qed

theorem NewApkSign_size_fields_witness:
  "int (length mismatched_zip) \<le> maxAlloc \<and> (0::nat) < 65535 \<and>
   corroborated mismatched_zip 0 \<and>
   unat (declared_cd mismatched_zip 0) + unat (declared_cd_len mismatched_zip 0)
     = length mismatched_zip - 22 - 0 \<and>
   no_members mismatched_zip = Some [] \<and>
   (35 :: uint64) = ucast (declared_cd mismatched_zip 0) \<and>
   magic_before mismatched_zip 35 \<and>
   24 \<le> unat (35 :: uint64) \<and>
   postSize mismatched_zip 35 = 26 \<and>
   preSize mismatched_zip 35 = 27 \<and>
   unat (35 - postSize mismatched_zip 35 - 8) + 8 \<le> length mismatched_zip \<and>
   (\<exists>z. NewApkSign no_members mismatched_zip = Inr z \<and> raw z = mismatched_zip \<and>
        cdOffset z = 35 \<and> \<not> IsV2Signed z \<and> rawASv2 z = []) \<and>
   int (length signed_zip) \<le> maxAlloc \<and>
   corroborated signed_zip 0 \<and>
   unat (declared_cd signed_zip 0) + unat (declared_cd_len signed_zip 0)
     = length signed_zip - 22 - 0 \<and>
   no_members signed_zip = Some [] \<and>
   (35 :: uint64) = ucast (declared_cd signed_zip 0) \<and>
   magic_before signed_zip 35 \<and>
   postSize signed_zip 35 = 26 \<and>
   preSize signed_zip 35 = 26 \<and>
   unat (35 - postSize signed_zip 35 - 8) + 8 \<le> length signed_zip \<and>
   35 - postSize signed_zip 35 - 8 \<noteq> 0 \<and>
   (\<exists>z. NewApkSign no_members signed_zip = Inr z \<and> raw z = signed_zip \<and>
        cdOffset z = 35 \<and> IsV2Signed z \<and> length (rawASv2 z) = 2)"
proof -
  have m1: "int (length mismatched_zip) \<le> maxAlloc"
    by (simp add: mismatched_zip_def maxAlloc_def cd_entry_def)
  have m2: "(0::nat) < 65535" by simp
  have m5: "unat (declared_cd mismatched_zip 0) + unat (declared_cd_len mismatched_zip 0)
     = length mismatched_zip - 22 - 0"
    by (simp add: mismatched_zip_def window_defs)
  have m6: "no_members mismatched_zip = Some []" by (simp add: no_members_def)
  have m7: "(35 :: uint64) = ucast (declared_cd mismatched_zip 0)"
    by (simp add: mismatched_zip_def window_defs)
  have m8: "magic_before mismatched_zip 35"
    by (simp add: magic_before_def mismatched_zip_def cd_entry_def sig_magic_def)
  have m9: "24 \<le> unat (35 :: uint64)" by simp
  have mpost: "postSize mismatched_zip 35 = 26"
    by (simp add: postSize_def mismatched_zip_def cd_entry_def Uint64_def le_word_def)
  have mpre: "preSize mismatched_zip 35 = 27"
    by (simp add: preSize_def mpost)
       (simp add: mismatched_zip_def cd_entry_def Uint64_def le_word_def)
  have m10: "unat (35 - postSize mismatched_zip 35 - 8) + 8 \<le> length mismatched_zip"
    by (simp add: mpost) (simp add: mismatched_zip_def cd_entry_def)
  have m11: "preSize mismatched_zip 35 = postSize mismatched_zip 35 \<longrightarrow>
      24 \<le> unat (postSize mismatched_zip 35) \<and>
      unat (postSize mismatched_zip 35) + 8 \<le> unat (35 :: uint64)"
    by (simp add: mpost mpre)
  have s1: "int (length signed_zip) \<le> maxAlloc"
    by (simp add: signed_zip_def maxAlloc_def cd_entry_def)
  have s5: "unat (declared_cd signed_zip 0) + unat (declared_cd_len signed_zip 0)
     = length signed_zip - 22 - 0"
    by (simp add: signed_zip_def window_defs)
  have s6: "no_members signed_zip = Some []" by (simp add: no_members_def)
  have s7: "(35 :: uint64) = ucast (declared_cd signed_zip 0)"
    by (simp add: signed_zip_def window_defs)
  have s8: "magic_before signed_zip 35"
    by (simp add: magic_before_def signed_zip_def cd_entry_def sig_magic_def)
  have spost: "postSize signed_zip 35 = 26"
    by (simp add: postSize_def signed_zip_def cd_entry_def Uint64_def le_word_def)
  have spre: "preSize signed_zip 35 = 26"
    by (simp add: preSize_def spost)
       (simp add: signed_zip_def cd_entry_def Uint64_def le_word_def)
  have s10: "unat (35 - postSize signed_zip 35 - 8) + 8 \<le> length signed_zip"
    by (simp add: spost) (simp add: signed_zip_def cd_entry_def)
  have s11: "preSize signed_zip 35 = postSize signed_zip 35 \<longrightarrow>
      24 \<le> unat (postSize signed_zip 35) \<and>
      unat (postSize signed_zip 35) + 8 \<le> unat (35 :: uint64)"
    by (simp add: spost spre)
  have s12: "35 - postSize signed_zip 35 - 8 \<noteq> 0" by (simp add: spost)
  from NewApkSign_size_fields [where rd = no_members and names = "[]",
      OF m1 m2 mismatched_passed mismatched_corr m5 m6 m7 m8 m9 m10 m11]
  have M: "\<exists>z. NewApkSign no_members mismatched_zip = Inr z \<and> raw z = mismatched_zip \<and>
        cdOffset z = 35 \<and> \<not> IsV2Signed z \<and> rawASv2 z = []"
    by (simp add: mpost mpre)
  from NewApkSign_size_fields [where rd = no_members and names = "[]",
      OF s1 m2 signed_passed signed_corr s5 s6 s7 s8 m9 s10 s11]
  have S: "\<exists>z. NewApkSign no_members signed_zip = Inr z \<and> raw z = signed_zip \<and>
        cdOffset z = 35 \<and> IsV2Signed z \<and> length (rawASv2 z) = 2"
    by (simp add: spost spre)
  show ?thesis
    using m1 m2 mismatched_corr m5 m6 m7 m8 m9 mpost mpre m10 M
      s1 signed_corr s5 s6 s7 s8 spost spre s10 s12 S
    by (intro conjI)
qed

text \<open>
  Claim C7 as stated fails: in \<open>block_at_zero_zip\<close> the magic is in front of the
  Central Directory and both size fields are 24, and the locator returns a descriptor
  whose \<open>IsV2Signed\<close> is false, because the block starts at offset 0.
\<close>

theorem NewApkSign_size_fields_counterexample:
  "NewApkSign no_members block_at_zero_zip = Inr block_at_zero_descr \<and>
   magic_before block_at_zero_zip (cdOffset block_at_zero_descr) \<and>
   preSize block_at_zero_zip (cdOffset block_at_zero_descr)
     = postSize block_at_zero_zip (cdOffset block_at_zero_descr) \<and>
   \<not> IsV2Signed block_at_zero_descr"
  by (simp add: NewApkSign_block_at_zero_zip)
     (simp add: magic_before_def preSize_def postSize_def block_at_zero_descr_def
        block_at_zero_zip_def empty_block_def cd_entry_def sig_magic_def Uint64_def le_word_def)

section \<open>C8: the invariant of a signed descriptor\<close>

text \<open>
  Claim C8. A descriptor returned by the locator with \<open>IsV2Signed\<close> set has a nonzero
  \<open>asv2Offset\<close>, the size its signing block declares is at least 24, and the stored
  content of the block is 24 bytes shorter than that size.
\<close>

theorem NewApkSign_signed_invariant:
  assumes "NewApkSign rd buf = Inr z" and "IsV2Signed z"
  shows "0 < asv2Offset z \<and> 24 \<le> unat (declared_block_size z) \<and>
         length (rawASv2 z) = unat (declared_block_size z) - 24"
proof -
  from assms(1) obtain i names where
    f: "find_asv2 (located (is_apk names) buf i) = Inr z"
    by (rule NewApkSign_Inr_E)
  let ?z0 = "located (is_apk names) buf i"
  let ?cd = "cdOffset ?z0"
  have cd32: "uint ?cd < 4294967296" by (simp add: uint_ucast32)
  have m: "magic_before (raw ?z0) ?cd \<and> preSize (raw ?z0) ?cd = postSize (raw ?z0) ?cd"
    using find_asv2_Inr_unsigned(2) [OF f cd32] assms(2) by auto
  note r = find_asv2_Inr_matched [OF f cd32 conjunct1 [OF m] conjunct2 [OF m]]
  note fl = find_asv2_Inr_fields [OF f cd32]
  note ar = asv2_start_arith [OF cd32 r(4) [unfolded asv2_start_def] r(6)]
  have pos: "0 < asv2Offset z" using r(1,2) assms(2) by simp
  have "declared_block_size z = preSize (raw ?z0) ?cd"
    by (simp add: declared_block_size_def preSize_def r(1) fl(1) asv2_start_def)
  then have d: "declared_block_size z = postSize (raw ?z0) ?cd" using m by simp
  have u: "unat (postSize (raw ?z0) ?cd - 24) = unat (postSize (raw ?z0) ?cd) - 24"
    "24 \<le> unat (postSize (raw ?z0) ?cd)"
    using ar(1,3) by (simp_all only: unat_eq_nat_uint)
  show ?thesis using pos u by (simp add: d r(3))
qed

theorem NewApkSign_signed_invariant_witness:
  "NewApkSign no_members signed_zip = Inr signed_descr \<and> IsV2Signed signed_descr \<and>
   0 < asv2Offset signed_descr \<and> 24 \<le> unat (declared_block_size signed_descr) \<and>
   length (rawASv2 signed_descr) = unat (declared_block_size signed_descr) - 24"
proof -
  have s: "IsV2Signed signed_descr" by (simp add: signed_descr_def)
  show ?thesis
    using NewApkSign_signed_invariant [OF NewApkSign_signed_zip s] NewApkSign_signed_zip s
    by simp
qed

section \<open>C9: the 32-bit offset field\<close>

text \<open>
  Claim C9. The injector compares the new offset of the Central Directory with nothing:
  for a descriptor with valid offsets and a payload for which the new buffer can be
  allocated it returns a buffer, and the offset field of the EOCD record in that buffer
  is insertion point plus payload length modulo \<open>2 ^ 32\<close>.
\<close>

theorem InjectBeforeCD_cd_offset_wraps:
  assumes "valid_offsets z" and "newSize z data \<le> maxAlloc"
  shows "\<exists>ret. InjectBeforeCD z data = Inr ret \<and>
     unat (Uint32 (drop (unat (endOfFilesSection z) + length data
                         + (unat (eocdOffset z) - unat (cdOffset z)) + 16) ret))
       = (unat (endOfFilesSection z) + length data) mod 2 ^ 32"
proof -
  note n = valid_offsets_nat [OF assms(1)]
  note le = endOfFilesSection_le [OF assms(1)]
  define A where "A = take (unat (endOfFilesSection z)) (raw z) @ data @
     take (unat (eocdOffset z) - unat (cdOffset z)) (drop (unat (cdOffset z)) (raw z)) @
     take 16 (drop (unat (eocdOffset z)) (raw z))"
  define v :: uint32 where "v = word_of_nat (unat (endOfFilesSection z) + length data)"
  have lA: "length A = unat (endOfFilesSection z) + length data
      + (unat (eocdOffset z) - unat (cdOffset z)) + 16"
    using n le by (simp add: A_def)
  have s: "spliced z data = A @ PutUint32 v @ drop (unat (eocdOffset z) + 20) (raw z)"
    by (simp add: spliced_def A_def v_def)
  have "drop (length A) (spliced z data) = PutUint32 v @ drop (unat (eocdOffset z) + 20) (raw z)"
    unfolding s by simp
  then have "Uint32 (drop (length A) (spliced z data)) = v"
    by (simp only: Uint32_PutUint32)
  moreover have "unat v = (unat (endOfFilesSection z) + length data) mod 2 ^ 32"
    by (simp only: v_def unat_of_nat) simp
  ultimately show ?thesis
    using InjectBeforeCD_spliced [OF assms] by (simp add: lA)
qed

theorem InjectBeforeCD_cd_offset_wraps_witness:
  "valid_offsets plain_descr \<and> newSize plain_descr (replicate 4294967296 0) \<le> maxAlloc \<and>
   2 ^ 32 \<le> unat (endOfFilesSection plain_descr) + length (replicate 4294967296 (0 :: byte)) \<and>
   (\<exists>ret. InjectBeforeCD plain_descr (replicate 4294967296 0) = Inr ret \<and>
      unat (Uint32 (drop 4294967374 ret)) = 16)"
  using InjectBeforeCD_cd_offset_wraps [OF valid_plain_descr newSize_plain_descr_large]
    valid_plain_descr newSize_plain_descr_large
  by (simp add: endOfFilesSection_def plain_descr_def)

section \<open>C10: VerifyV2 on an unsigned descriptor\<close>

text \<open>
  Claim C10. On a descriptor whose \<open>IsV2Signed\<close> is false, \<open>VerifyV2\<close> returns the
  error \<open>NotV2Signed\<close> and the descriptor is the one it was given; on a descriptor whose
  \<open>IsV2Signed\<close> is true, the error it returns (if any) is not \<open>NotV2Signed\<close>.
\<close>

theorem VerifyV2_NotV2Signed:
  "(\<not> IsV2Signed z \<longrightarrow> VerifyV2 parse verify z = (Some NotV2Signed, z)) \<and>
   (IsV2Signed z \<longrightarrow> fst (VerifyV2 parse verify z) \<noteq> Some NotV2Signed)"
  by (simp add: VerifyV2_def split: option.split prod.split)

theorem VerifyV2_NotV2Signed_witness:
  "\<not> IsV2Signed \<lparr>IsAPK = False, IsV2Signed = False, raw = [], size_f = 0, eocdOffset = 0,
       cdOffset = 0, asv2Offset = 0, rawASv2 = []\<rparr> \<and>
   VerifyV2 (\<lambda>b. Some b) (\<lambda>v a. (False, a))
     \<lparr>IsAPK = False, IsV2Signed = False, raw = [], size_f = 0, eocdOffset = 0,
       cdOffset = 0, asv2Offset = 0, rawASv2 = []\<rparr>
     = (Some NotV2Signed,
        \<lparr>IsAPK = False, IsV2Signed = False, raw = [], size_f = 0, eocdOffset = 0,
          cdOffset = 0, asv2Offset = 0, rawASv2 = []\<rparr>) \<and>
   IsV2Signed \<lparr>IsAPK = False, IsV2Signed = True, raw = [], size_f = 0, eocdOffset = 0,
       cdOffset = 0, asv2Offset = 1, rawASv2 = []\<rparr> \<and>
   fst (VerifyV2 (\<lambda>b. Some b) (\<lambda>v a. (False, a))
     \<lparr>IsAPK = False, IsV2Signed = True, raw = [], size_f = 0, eocdOffset = 0,
       cdOffset = 0, asv2Offset = 1, rawASv2 = []\<rparr>) \<noteq> Some NotV2Signed"
  using
    VerifyV2_NotV2Signed [of "\<lparr>IsAPK = False, IsV2Signed = False, raw = [], size_f = 0,
       eocdOffset = 0, cdOffset = 0, asv2Offset = 0, rawASv2 = []\<rparr>"
       "\<lambda>b. Some b" "\<lambda>v a. (False, a)"]
    VerifyV2_NotV2Signed [of "\<lparr>IsAPK = False, IsV2Signed = True, raw = [], size_f = 0,
       eocdOffset = 0, cdOffset = 0, asv2Offset = 1, rawASv2 = []\<rparr>"
       "\<lambda>b. Some b" "\<lambda>v a. (False, a)"]
  by simp

end
